theory Spec2Isabelle
  imports Complex_Main "HOL-Library.Word"
begin

unbundle bit_operations_syntax

section \<open>Data model\<close>

text \<open>
  The library (\<^verbatim>\<open>totp.ts\<close>) computes HOTP and TOTP codes with the platform's
  Web Crypto HMAC, decodes Base32 secrets, draws random secrets and builds
  \<^verbatim>\<open>otpauth://\<close> URIs.

  Conventions of the embedding:
  \<^item> A JavaScript string is an Isabelle \<open>string\<close>, exact on ASCII text: the
    characters the library inspects itself (the Base32 alphabet, decimal digits,
    the hyphen, \<^verbatim>\<open>=\<close>) are ASCII. The theorems about functions that look at the
    characters of an argument assume that the argument is ASCII.
  \<^item> A JavaScript number is a double. A timestamp (a count of milliseconds) and
    the numbers of the provisioning URI are integers, an \<open>int\<close>. The options
    \<open>digits\<close>, \<open>timeStep\<close> and \<open>window\<close>, which callers may set to any number,
    are rationals, a \<open>rat\<close> (every finite double is one); a value that holds the
    integer \<open>n\<close> is \<open>of_int n\<close>. Sums and comparisons are computed exactly, and so
    is the division by an integer time step. The source computes the same as long
    as the values stay small enough, and the theorems carry the bounds that make it
    so: magnitudes below \<open>2^52\<close> for a timestamp, an integer time step and an
    integer window (see \<open>double_counter_exact\<close> for the division), binary
    fractions of ten places below \<open>2^41\<close> for a fractional window
    (\<open>double_fraction_exact\<close>), the safe integers for a number that is only
    printed. Where a floating-point result is not exact, the quotient by a
    fractional time step and the remainder by a negative or fractional power of
    ten, it is taken from the platform. A number that is not finite, as the
    division by a zero time step gives, is made explicit by the type \<open>jsnum\<close>.
  \<^item> An element of a \<^verbatim>\<open>Uint8Array\<close> is an \<open>8 word\<close>.
  \<^item> A thrown exception is the left summand of a result \<open>error + 'a\<close>.
  \<^item> Optional fields of an options object are \<open>option\<close> values, and the default of
    the destructuring pattern is applied where the source applies it. The reading
    of \<^verbatim>\<open>Date.now()\<close> is an argument \<open>now\<close>.
  \<^item> The services of the platform that the library consumes and that are not
    arithmetic on integers are parameters: the HMAC function behind
    \<^verbatim>\<open>crypto.subtle.sign\<close>, the two floating-point results just named, and the
    bytes of the secure random source. The refusals of the platform that the code
    passes on are part of the embedding: \<^verbatim>\<open>importKey\<close> refuses a key of length
    zero, \<^verbatim>\<open>getRandomValues\<close> a buffer of more than 65536 bytes. Exhaustion of
    memory is not represented; the theorems bound \<open>digits\<close> by the shortest
    maximal string length of current engines, \<open>2^28 - 16\<close>.
  \<^item> Every call of \<^verbatim>\<open>crypto.subtle.sign\<close> is recorded, in call order, next to
    the result of the operation that made it.
\<close>

type_synonym byte = "8 word"
type_synonym bytes = "byte list"

datatype algorithm = SHA_1 | SHA_256 | SHA_512

text \<open>The string the source uses for each member of the union type.\<close>

fun algorithm_name :: "algorithm \<Rightarrow> string" where
  "algorithm_name SHA_1 = ''SHA-1''"
| "algorithm_name SHA_256 = ''SHA-256''"
| "algorithm_name SHA_512 = ''SHA-512''"

text \<open>
  The exceptions the code can raise: \<^verbatim>\<open>new Error(msg)\<close> thrown by
  \<^verbatim>\<open>base32Decode\<close>, and those of the platform: \<^verbatim>\<open>RangeError\<close> (\<^verbatim>\<open>BigInt\<close> of a
  number that is not an integer, a typed array of negative length), \<^verbatim>\<open>DataError\<close>
  (\<^verbatim>\<open>importKey\<close> on a key of length zero) and \<^verbatim>\<open>QuotaExceededError\<close>
  (\<^verbatim>\<open>getRandomValues\<close> on more than 65536 bytes).
\<close>

datatype error = Error string | RangeError | DataError | QuotaExceededError

text \<open>
  A number as \<^verbatim>\<open>hotp\<close> receives it for its counter: finite, or one of \<^verbatim>\<open>NaN\<close>,
  \<^verbatim>\<open>Infinity\<close>, \<^verbatim>\<open>-Infinity\<close>. \<open>Fin n\<close> is the number that holds the integer \<open>n\<close>.
\<close>

datatype jsnum = Num rat | NonFinite

definition Fin :: "int \<Rightarrow> jsnum" where
  "Fin n = Num (of_int n)"

text \<open>Whether a finite number holds an integer.\<close>

definition integral :: "rat \<Rightarrow> bool" where
  "integral r = (of_int \<lfloor>r\<rfloor> = r)"

text \<open>
  The platform functions taken as parameters. \<open>sign\<close> is the HMAC of a message
  under an imported key: \<^verbatim>\<open>crypto.subtle.sign("HMAC", cryptoKey, message)\<close>, which
  does not fail on a key that was imported for signing. \<open>remainder_text\<close> is the
  text of \<^verbatim>\<open>(binary % 10 ** digits).toString()\<close> for a \<open>digits\<close> that is negative
  or not an integer, a floating-point remainder. \<open>quotient_floor\<close> is the value of
  \<^verbatim>\<open>Math.floor(timestamp / 1000 / timeStep)\<close> for a time step that is not an
  integer: an integer, or \<open>None\<close> when the quotient is not finite.
\<close>

record platform =
  sign :: "algorithm \<Rightarrow> bytes \<Rightarrow> bytes \<Rightarrow> bytes"
  remainder_text :: "int \<Rightarrow> rat \<Rightarrow> string"
  quotient_floor :: "int \<Rightarrow> rat \<Rightarrow> int option"

type_synonym sign_call = "algorithm \<times> bytes \<times> bytes"

text \<open>
  The options objects. A field is named after the property of the source, prefixed
  (\<open>opt_\<close>, \<open>uri_\<close>) so that the source's local constants keep their names.
\<close>

record HOTPOptions =
  opt_digits :: "rat option"
  opt_algorithm :: "algorithm option"

record TOTPOptions = HOTPOptions +
  opt_timeStep :: "rat option"
  opt_timestamp :: "int option"
  opt_window :: "rat option"

record TOTPURIOptions =
  uri_accountName :: string
  uri_issuer :: string
  uri_secret :: string
  uri_digits :: "int option"
  uri_period :: "int option"
  uri_algorithm :: "algorithm option"

section \<open>Counter encoding\<close>

text \<open>
  \<^verbatim>\<open>toUint8Array(num)\<close>: \<^verbatim>\<open>BigInt(num)\<close> throws a \<^verbatim>\<open>RangeError\<close> unless
  \<open>num\<close> is an integer; \<^verbatim>\<open>setBigUint64(0, v)\<close> stores \<open>v\<close> modulo \<open>2^64\<close>,
  most significant byte first.
\<close>

definition toUint8Array :: "jsnum \<Rightarrow> error + bytes" where
  "toUint8Array num =
     (case num of
        NonFinite \<Rightarrow> Inl RangeError
      | Num r \<Rightarrow>
          if integral r
          then (let v = (word_of_int \<lfloor>r\<rfloor> :: 64 word)
                in Inr (map (\<lambda>i. ucast (drop_bit (8 * (7 - i)) v)) [0..<8]))
          else Inl RangeError)"

section \<open>String and number primitives of the language\<close>

text \<open>
  \<^verbatim>\<open>s.padStart(targetLength, c)\<close> for a one-character pad string. The target
  length is cut to an integer, and a negative one counts as 0: the caller passes
  \<open>nat \<lfloor>digits\<rfloor>\<close>.
\<close>

definition padStart :: "nat \<Rightarrow> char \<Rightarrow> string \<Rightarrow> string" where
  "padStart targetLength c s = replicate (targetLength - length s) c @ s"

text \<open>
  \<^verbatim>\<open>n.toString(radix)\<close> for a safe integer \<open>n\<close> (\<open>\<bar>n\<bar> < 2^53\<close>) and a radix from 2
  to 36: the digits of \<open>\<bar>n\<bar>\<close>, most significant first, after a minus sign when \<open>n\<close>
  is negative. (From \<open>10^21\<close> on the language prints an exponent; the theorems
  stay below.)
\<close>

definition digit_chars :: string where
  "digit_chars = ''0123456789abcdefghijklmnopqrstuvwxyz''"

function radix_digits :: "int \<Rightarrow> int \<Rightarrow> string" where
  "radix_digits radix n =
     (if n < radix \<or> radix < 2 then [digit_chars ! nat n]
      else radix_digits radix (n div radix) @ [digit_chars ! nat (n mod radix)])"
  by pat_completeness auto
termination
  by (relation "measure (\<lambda>(radix, n). nat n)") (auto intro!: int_div_less_self)

declare radix_digits.simps [simp del]

definition number_toString :: "int \<Rightarrow> int \<Rightarrow> string" where
  "number_toString radix n =
     (if n < 0 then CHR ''-'' # radix_digits radix (- n)
      else radix_digits radix n)"

text \<open>
  \<^verbatim>\<open>parseInt(s, 2)\<close> on a string without sign or leading blanks: the value of the
  longest prefix of binary digits. An empty prefix gives \<^verbatim>\<open>NaN\<close>, which the
  conversion to a \<^verbatim>\<open>Uint8Array\<close> element turns into 0; it is 0 here.
\<close>

definition parseInt2 :: "string \<Rightarrow> nat" where
  "parseInt2 s =
     foldl (\<lambda>acc c. 2 * acc + (if c = CHR ''1'' then 1 else 0)) 0
       (takeWhile (\<lambda>c. c = CHR ''0'' \<or> c = CHR ''1'') s)"

text \<open>\<^verbatim>\<open>s.substring(start, end)\<close>: both indices are clamped to the length and swapped when out of order.\<close>

definition substring :: "string \<Rightarrow> nat \<Rightarrow> nat \<Rightarrow> string" where
  "substring s start end' =
     (let a = min start (length s); b = min end' (length s)
      in take (max a b - min a b) (drop (min a b) s))"

text \<open>\<^verbatim>\<open>s.indexOf(c)\<close> for a one-character search string: the first index, or -1.\<close>

fun indexOf_from :: "string \<Rightarrow> char \<Rightarrow> int \<Rightarrow> int" where
  "indexOf_from [] c i = - 1"
| "indexOf_from (x # xs) c i = (if x = c then i else indexOf_from xs c (i + 1))"

definition indexOf :: "string \<Rightarrow> char \<Rightarrow> int" where
  "indexOf s c = indexOf_from s c 0"

text \<open>
  \<^verbatim>\<open>s.toUpperCase()\<close> on ASCII text: the letters \<^verbatim>\<open>a\<close> to \<^verbatim>\<open>z\<close> become \<^verbatim>\<open>A\<close> to
  \<^verbatim>\<open>Z\<close>, every other ASCII character is kept. The Unicode case mapping of other
  characters is not represented (it turns some of them into ASCII letters); the
  theorem about \<^verbatim>\<open>base32Decode\<close> assumes an ASCII input.
\<close>

definition toUpperCase :: "string \<Rightarrow> string" where
  "toUpperCase s =
     map (\<lambda>c. if 97 \<le> (of_char c :: nat) \<and> (of_char c :: nat) \<le> 122
               then char_of (of_char c - 32 :: nat) else c) s"

text \<open>\<^verbatim>\<open>a % b\<close> on integers with \<open>b \<noteq> 0\<close>: the remainder has the sign of the dividend.\<close>

definition js_rem :: "int \<Rightarrow> int \<Rightarrow> int" where
  "js_rem a b = sgn a * (\<bar>a\<bar> mod \<bar>b\<bar>)"

section \<open>Base32 decoding\<close>

definition alphabet :: string where
  "alphabet = ''ABCDEFGHIJKLMNOPQRSTUVWXYZ234567''"

text \<open>\<^verbatim>\<open>input.replace(/=+$/, "")\<close>: the run of \<^verbatim>\<open>=\<close> at the end of the input is removed.\<close>

definition strip_padding :: "string \<Rightarrow> string" where
  "strip_padding input = rev (dropWhile (\<lambda>c. c = CHR ''='') (rev input))"

text \<open>The first loop of \<^verbatim>\<open>base32Decode\<close>: \<open>bits\<close> is the string of binary digits built so far.\<close>

fun decode_chars :: "string \<Rightarrow> string \<Rightarrow> error + string" where
  "decode_chars [] bits = Inr bits"
| "decode_chars (char # rest) bits =
     (let val = indexOf alphabet char
      in if val = - 1 then Inl (Error ''Invalid Base32 character in secret'')
         else decode_chars rest (bits @ padStart 5 CHR ''0'' (number_toString 2 val)))"

text \<open>The second loop: \<open>i\<close> advances by 8 while a whole byte is left.\<close>

function emit_bytes :: "string \<Rightarrow> nat \<Rightarrow> nat list \<Rightarrow> nat list" where
  "emit_bytes bits i output =
     (if i + 8 \<le> length bits
      then emit_bytes bits (i + 8) (output @ [parseInt2 (substring bits i (i + 8))])
      else output)"
  by pat_completeness auto
termination
  by (relation "measure (\<lambda>(bits, i, output). Suc (length bits) - i)") auto

declare emit_bytes.simps [simp del]

definition base32Decode :: "string \<Rightarrow> error + bytes" where
  "base32Decode input =
     (case decode_chars (toUpperCase (strip_padding input)) [] of
        Inl e \<Rightarrow> Inl e
      | Inr bits \<Rightarrow> Inr (map word_of_nat (emit_bytes bits 0 [])))"

section \<open>Secret generation\<close>

text \<open>
  \<^verbatim>\<open>crypto.getRandomValues(buffer)\<close> refuses a buffer of more than 65536 bytes with
  a \<^verbatim>\<open>QuotaExceededError\<close>; otherwise it overwrites every element, and the random
  source \<open>rng\<close> gives the byte written at each index.
\<close>

definition getRandomValues :: "(nat \<Rightarrow> byte) \<Rightarrow> bytes \<Rightarrow> error + bytes" where
  "getRandomValues rng buffer =
     (if 65536 < int (length buffer) then Inl QuotaExceededError
      else Inr (map rng [0..<length buffer]))"

text \<open>
  The loop of \<^verbatim>\<open>generateTOTPSecret\<close>. An index outside the array would read
  \<^verbatim>\<open>undefined\<close>, whose remainder is \<^verbatim>\<open>NaN\<close>, and \<^verbatim>\<open>alphabet[NaN]\<close> is
  \<^verbatim>\<open>undefined\<close> again, appended as the text \<^verbatim>\<open>undefined\<close>.
\<close>

function secret_loop :: "bytes \<Rightarrow> int \<Rightarrow> int \<Rightarrow> string \<Rightarrow> string" where
  "secret_loop randomValues len i secret =
     (if i < len
      then secret_loop randomValues len (i + 1)
             (secret @
               (if 0 \<le> i \<and> i < int (length randomValues)
                then [alphabet ! (unat (randomValues ! nat i) mod length alphabet)]
                else ''undefined''))
      else secret)"
  by pat_completeness auto
termination
  by (relation "measure (\<lambda>(randomValues, len, i, secret). nat (len - i))") auto

declare secret_loop.simps [simp del]

text \<open>
  \<^verbatim>\<open>generateTOTPSecret(length)\<close> for an integer length. \<^verbatim>\<open>new Uint8Array(length)\<close>
  throws a \<^verbatim>\<open>RangeError\<close> for a negative length. (It also refuses a length that no
  typed array can have, far above the limit of the random source; the theorems
  stay below.)
\<close>

definition generateTOTPSecret :: "(nat \<Rightarrow> byte) \<Rightarrow> int option \<Rightarrow> error + string" where
  "generateTOTPSecret rng length_arg =
     (let len = (case length_arg of None \<Rightarrow> 32 | Some l \<Rightarrow> l)
      in if len < 0 then Inl RangeError
         else (case getRandomValues rng (replicate (nat len) 0) of
                 Inl e \<Rightarrow> Inl e
               | Inr randomValues \<Rightarrow> Inr (secret_loop randomValues len 0 [])))"

section \<open>HOTP\<close>

text \<open>
  \<^verbatim>\<open>hmac[i]! & mask\<close>: the bitwise operators work on 32-bit integers; an index
  outside the array reads \<^verbatim>\<open>undefined\<close>, which they take as 0.
\<close>

definition byte_and :: "bytes \<Rightarrow> int \<Rightarrow> 32 word \<Rightarrow> 32 word" where
  "byte_and hmac i m =
     (if 0 \<le> i \<and> i < int (length hmac) then ucast (hmac ! nat i) AND m else 0)"

text \<open>The constants \<open>offset\<close> and \<open>binary\<close> of \<^verbatim>\<open>hotp\<close>, read as signed 32-bit integers.\<close>

definition hotp_offset :: "bytes \<Rightarrow> int" where
  "hotp_offset hmac = sint (byte_and hmac (int (length hmac) - 1) 0x0f)"

definition hotp_binary :: "bytes \<Rightarrow> int" where
  "hotp_binary hmac =
     (let offset = hotp_offset hmac
      in sint (push_bit 24 (byte_and hmac offset 0x7f)
               OR push_bit 16 (byte_and hmac (offset + 1) 0xff)
               OR push_bit 8 (byte_and hmac (offset + 2) 0xff)
               OR byte_and hmac (offset + 3) 0xff))"

text \<open>
  \<^verbatim>\<open>crypto.subtle.importKey("raw", key, {name: "HMAC", hash: algorithm}, false, ["sign"])\<close>:
  a key of length zero is refused with a \<^verbatim>\<open>DataError\<close>; the three algorithms of
  the union type are all supported. The imported key stands for the key bytes.
\<close>

definition importKey :: "algorithm \<Rightarrow> bytes \<Rightarrow> error + bytes" where
  "importKey algorithm key = (if key = [] then Inl DataError else Inr key)"

text \<open>
  \<^verbatim>\<open>hotp(key, counter, options)\<close>. The key is imported first; the counter is
  encoded when the arguments of \<^verbatim>\<open>sign\<close> are evaluated, before the call. The result
  comes with the calls of \<^verbatim>\<open>sign\<close>: none when the key is refused or the counter
  cannot be encoded, one otherwise. For an integer \<open>digits \<ge> 0\<close> the remainder is
  an integer below \<open>2^31\<close>, printed in decimal (from \<open>digits = 10\<close> on it is
  \<open>binary\<close> itself, also where \<^verbatim>\<open>10 ** digits\<close> is rounded or infinite); for a
  \<open>digits\<close> that is negative or not an integer it is a floating-point number,
  whose text is the platform's.
\<close>

definition hotp :: "platform \<Rightarrow> bytes \<Rightarrow> jsnum \<Rightarrow> HOTPOptions \<Rightarrow> (error + string) \<times> sign_call list" where
  "hotp pf key counter options =
     (let digits = (case opt_digits options of None \<Rightarrow> 6 | Some d \<Rightarrow> d);
          algorithm = (case opt_algorithm options of None \<Rightarrow> SHA_1 | Some a \<Rightarrow> a)
      in case importKey algorithm key of
           Inl e \<Rightarrow> (Inl e, [])
         | Inr cryptoKey \<Rightarrow>
             (case toUint8Array counter of
                Inl e \<Rightarrow> (Inl e, [])
              | Inr message \<Rightarrow>
                  (let hmac = sign pf algorithm cryptoKey message;
                       binary = hotp_binary hmac;
                       code = (if integral digits \<and> 0 \<le> digits
                               then number_toString 10 (js_rem binary (10 ^ nat \<lfloor>digits\<rfloor>))
                               else remainder_text pf binary digits)
                   in (Inr (padStart (nat \<lfloor>digits\<rfloor>) CHR ''0'' code),
                       [(algorithm, cryptoKey, message)]))))"

section \<open>TOTP\<close>

text \<open>
  \<^verbatim>\<open>Math.floor(timestamp / 1000 / timeStep)\<close>: a zero time step gives an infinity or
  \<^verbatim>\<open>NaN\<close>, which \<^verbatim>\<open>Math.floor\<close> returns unchanged. Otherwise the two divisions
  are rounded to doubles. For an integer time step and a timestamp, both of
  magnitude below \<open>2^52\<close>, the roundings do not change the floor
  (\<open>double_counter_exact\<close>), which is what the embedding computes; for a time
  step that is not an integer the result is the platform's.
\<close>

definition time_counter :: "platform \<Rightarrow> int \<Rightarrow> rat \<Rightarrow> jsnum" where
  "time_counter pf timestamp timeStep =
     (if timeStep = 0 then NonFinite
      else if integral timeStep then Fin (timestamp div (1000 * \<lfloor>timeStep\<rfloor>))
      else (case quotient_floor pf timestamp timeStep of
              None \<Rightarrow> NonFinite
            | Some n \<Rightarrow> Fin n))"

text \<open>
  \<^verbatim>\<open>counter + errorWindow\<close>: exact as long as the sum is a double, which the
  bounds of the theorems ensure (\<open>double_sum_exact\<close>, \<open>double_fraction_exact\<close>).
\<close>

fun jsnum_add :: "jsnum \<Rightarrow> rat \<Rightarrow> jsnum" where
  "jsnum_add (Num c) e = Num (c + e)"
| "jsnum_add NonFinite e = NonFinite"

text \<open>
  \<^verbatim>\<open>generateTOTP(secret, options)\<close>; \<open>now\<close> is the reading of \<^verbatim>\<open>Date.now()\<close>, used
  when the options give no timestamp.
\<close>

definition generateTOTP :: "platform \<Rightarrow> int \<Rightarrow> string \<Rightarrow> TOTPOptions \<Rightarrow> (error + string) \<times> sign_call list" where
  "generateTOTP pf now secret options =
     (let timeStep = (case opt_timeStep options of None \<Rightarrow> 30 | Some t \<Rightarrow> t);
          digits = (case opt_digits options of None \<Rightarrow> 6 | Some d \<Rightarrow> d);
          timestamp = (case opt_timestamp options of None \<Rightarrow> now | Some t \<Rightarrow> t);
          algorithm = (case opt_algorithm options of None \<Rightarrow> SHA_1 | Some a \<Rightarrow> a)
      in case base32Decode secret of
           Inl e \<Rightarrow> (Inl e, [])
         | Inr decodedSecret \<Rightarrow>
             (let counter = time_counter pf timestamp timeStep
              in hotp pf decodedSecret counter
                   \<lparr>opt_digits = Some digits, opt_algorithm = Some algorithm\<rparr>))"

text \<open>
  The loop of \<^verbatim>\<open>verifyTOTP\<close>, from the current \<open>errorWindow\<close> on. The calls of the
  signer made by the iterations are appended in order.
\<close>

function verify_loop ::
  "platform \<Rightarrow> string \<Rightarrow> bytes \<Rightarrow> jsnum \<Rightarrow> HOTPOptions \<Rightarrow> rat \<Rightarrow> rat \<Rightarrow> (error + bool) \<times> sign_call list" where
  "verify_loop pf token decodedSecret counter options window errorWindow =
     (if errorWindow \<le> window
      then (case hotp pf decodedSecret (jsnum_add counter errorWindow) options of
              (Inl e, calls) \<Rightarrow> (Inl e, calls)
            | (Inr otp, calls) \<Rightarrow>
                if otp = token then (Inr True, calls)
                else (case verify_loop pf token decodedSecret counter options window (errorWindow + 1) of
                        (r, calls') \<Rightarrow> (r, calls @ calls')))
      else (Inr False, []))"
  by pat_completeness auto
termination
  by (relation "measure (\<lambda>(pf, token, decodedSecret, counter, options, window, errorWindow).
                  nat (\<lfloor>window - errorWindow\<rfloor> + 1))")
    (auto simp add: diff_diff_eq [symmetric])

declare verify_loop.simps [simp del]

definition verifyTOTP :: "platform \<Rightarrow> int \<Rightarrow> string \<Rightarrow> string \<Rightarrow> TOTPOptions \<Rightarrow> (error + bool) \<times> sign_call list" where
  "verifyTOTP pf now token secret options =
     (let window = (case opt_window options of None \<Rightarrow> 1 | Some w \<Rightarrow> w);
          timeStep = (case opt_timeStep options of None \<Rightarrow> 30 | Some t \<Rightarrow> t);
          digits = (case opt_digits options of None \<Rightarrow> 6 | Some d \<Rightarrow> d);
          timestamp = (case opt_timestamp options of None \<Rightarrow> now | Some t \<Rightarrow> t);
          algorithm = (case opt_algorithm options of None \<Rightarrow> SHA_1 | Some a \<Rightarrow> a)
      in case base32Decode secret of
           Inl e \<Rightarrow> (Inl e, [])
         | Inr decodedSecret \<Rightarrow>
             (let counter = time_counter pf timestamp timeStep
              in verify_loop pf token decodedSecret counter
                   \<lparr>opt_digits = Some digits, opt_algorithm = Some algorithm\<rparr> window (- window)))"

section \<open>Provisioning URI\<close>

text \<open>A byte as \<^verbatim>\<open>%XX\<close>, with upper-case hexadecimal digits.\<close>

definition percent_byte :: "char \<Rightarrow> string" where
  "percent_byte c =
     [CHR ''%'', ''0123456789ABCDEF'' ! ((of_char c :: nat) div 16),
      ''0123456789ABCDEF'' ! ((of_char c :: nat) mod 16)]"

definition alphanumeric :: string where
  "alphanumeric = ''ABCDEFGHIJKLMNOPQRSTUVWXYZabcdefghijklmnopqrstuvwxyz0123456789''"

text \<open>
  \<^verbatim>\<open>encodeURIComponent(s)\<close>: letters, digits and \<^verbatim>\<open>- _ . ! ~ * ' ( )\<close> are kept, every
  other byte of the UTF-8 form is percent-encoded.
\<close>

definition encodeURIComponent :: "string \<Rightarrow> string" where
  "encodeURIComponent s =
     concat (map (\<lambda>c. if c \<in> set (alphanumeric @ ''-_.!~*()'' @ [CHR 0x27]) then [c]
                        else percent_byte c) s)"

text \<open>
  The serializer of \<^verbatim>\<open>URLSearchParams\<close> (\<^verbatim>\<open>application/x-www-form-urlencoded\<close>):
  letters, digits and \<^verbatim>\<open>* - . _\<close> are kept, a space becomes \<^verbatim>\<open>+\<close>, every other
  byte is percent-encoded; the pairs are written \<^verbatim>\<open>name=value\<close> in insertion order
  and joined with \<^verbatim>\<open>&\<close>.
\<close>

definition form_urlencode :: "string \<Rightarrow> string" where
  "form_urlencode s =
     concat (map (\<lambda>c. if c \<in> set (alphanumeric @ ''*-._'') then [c]
                        else if c = CHR '' '' then ''+''
                        else percent_byte c) s)"

fun URLSearchParams_toString :: "(string \<times> string) list \<Rightarrow> string" where
  "URLSearchParams_toString [] = []"
| "URLSearchParams_toString [(name, v)] = form_urlencode name @ ''='' @ form_urlencode v"
| "URLSearchParams_toString ((name, v) # rest) =
     form_urlencode name @ ''='' @ form_urlencode v @ ''&'' @ URLSearchParams_toString rest"

text \<open>\<^verbatim>\<open>algorithm.replace(/-/g, "")\<close>.\<close>

definition remove_hyphens :: "string \<Rightarrow> string" where
  "remove_hyphens s = filter (\<lambda>c. c \<noteq> CHR ''-'') s"

definition generateTOTPURI :: "TOTPURIOptions \<Rightarrow> string" where
  "generateTOTPURI options =
     (let accountName = uri_accountName options;
          issuer = uri_issuer options;
          secret = uri_secret options;
          digits = (case uri_digits options of None \<Rightarrow> 6 | Some d \<Rightarrow> d);
          period = (case uri_period options of None \<Rightarrow> 30 | Some p \<Rightarrow> p);
          algorithm = (case uri_algorithm options of None \<Rightarrow> SHA_1 | Some a \<Rightarrow> a);
          label = encodeURIComponent (issuer @ '':'' @ accountName);
          params = [(''secret'', secret),
                    (''issuer'', issuer),
                    (''algorithm'', remove_hyphens (algorithm_name algorithm)),
                    (''digits'', number_toString 10 digits),
                    (''period'', number_toString 10 period)]
      in ''otpauth://totp/'' @ label @ ''?'' @ URLSearchParams_toString params)"

section \<open>Test doubles for the platform\<close>

text \<open>
  Platforms used to run the operations on concrete inputs. The MAC of
  \<open>stub_platform\<close> has the output length of the algorithm (20, 32 or 64 bytes) and
  repeats the last byte of the message; the MAC of \<open>fixed_mac mac\<close> is \<open>mac\<close>
  whatever the message. \<open>rfc4226_mac\<close> is the example MAC of RFC 4226, section
  5.4. \<open>stub_rng\<close> is a source of bytes.

  The floating-point results of the test doubles are those of doubles where the
  theorems below use them: the remainder of 0 by \<open>10^-1\<close> or \<open>10^6.5\<close> is 0,
  printed \<^verbatim>\<open>0\<close>, and a quotient is computed exactly, as the doubles do for the timestamp
  59000 and the time step one half (\<open>59000 / 1000 = 59\<close>, \<open>59 / 0.5 = 118\<close>).
\<close>

definition stub_remainder_text :: "int \<Rightarrow> rat \<Rightarrow> string" where
  "stub_remainder_text binary digits = (if binary = 0 then ''0'' else ''0.5'')"

definition stub_quotient_floor :: "int \<Rightarrow> rat \<Rightarrow> int option" where
  "stub_quotient_floor timestamp timeStep =
     (if timeStep = 0 then None else Some \<lfloor>of_int timestamp / 1000 / timeStep\<rfloor>)"

fun mac_length :: "algorithm \<Rightarrow> nat" where
  "mac_length SHA_1 = 20"
| "mac_length SHA_256 = 32"
| "mac_length SHA_512 = 64"

definition stub_platform :: platform where
  "stub_platform =
     \<lparr>sign = (\<lambda>algorithm key message.
                replicate (mac_length algorithm) (if message = [] then 0 else last message)),
      remainder_text = stub_remainder_text,
      quotient_floor = stub_quotient_floor\<rparr>"

definition fixed_mac :: "bytes \<Rightarrow> platform" where
  "fixed_mac mac =
     \<lparr>sign = (\<lambda>algorithm key message. mac),
      remainder_text = stub_remainder_text,
      quotient_floor = stub_quotient_floor\<rparr>"

definition rfc4226_mac :: bytes where
  "rfc4226_mac =
     [0x1f, 0x86, 0x98, 0x69, 0x0e, 0x02, 0xca, 0x16, 0x61, 0x85,
      0x50, 0xef, 0x7f, 0x19, 0xda, 0x8e, 0x94, 0x5b, 0x55, 0x5a]"

definition stub_rng :: "nat \<Rightarrow> byte" where
  "stub_rng i = word_of_nat (37 * i + 250)"

section \<open>Notions of the specification\<close>

text \<open>
  The specification speaks of big-endian encodings, decimal renderings and a
  bitstream of 5-bit values. These definitions say what the words mean,
  independently of the code above; the theorems below relate the two.
\<close>

text \<open>The number that a byte sequence encodes, most significant byte first.\<close>

definition big_endian_value :: "bytes \<Rightarrow> int" where
  "big_endian_value bs = foldl (\<lambda>acc b. 256 * acc + uint b) 0 bs"

text \<open>The number that a string of decimal digits denotes.\<close>

definition decimal_value :: "string \<Rightarrow> int" where
  "decimal_value s = foldl (\<lambda>acc c. 10 * acc + (int (of_char c) - 48)) 0 s"

definition decimal_digit :: "char \<Rightarrow> bool" where
  "decimal_digit c = (48 \<le> (of_char c :: nat) \<and> (of_char c :: nat) \<le> 57)"

text \<open>
  The Base32 alphabet of RFC 4648: \<^verbatim>\<open>A\<close> to \<^verbatim>\<open>Z\<close> stand for 0 to 25 and \<^verbatim>\<open>2\<close> to
  \<^verbatim>\<open>7\<close> for 26 to 31.
\<close>

definition in_base32_alphabet :: "char \<Rightarrow> bool" where
  "in_base32_alphabet c =
     ((65 \<le> (of_char c :: nat) \<and> (of_char c :: nat) \<le> 90) \<or>
      (50 \<le> (of_char c :: nat) \<and> (of_char c :: nat) \<le> 55))"

definition base32_value :: "char \<Rightarrow> nat" where
  "base32_value c = (if 65 \<le> (of_char c :: nat) then of_char c - 65 else of_char c - 24)"

text \<open>
  Read without regard to case, as the decoder does after upper-casing: \<^verbatim>\<open>a\<close> to
  \<^verbatim>\<open>z\<close> are symbols too, with the values of \<^verbatim>\<open>A\<close> to \<^verbatim>\<open>Z\<close>.
\<close>

definition base32_symbol :: "char \<Rightarrow> bool" where
  "base32_symbol c =
     ((65 \<le> (of_char c :: nat) \<and> (of_char c :: nat) \<le> 90) \<or>
      (97 \<le> (of_char c :: nat) \<and> (of_char c :: nat) \<le> 122) \<or>
      (50 \<le> (of_char c :: nat) \<and> (of_char c :: nat) \<le> 55))"

definition symbol_value :: "char \<Rightarrow> nat" where
  "symbol_value c =
     (if 97 \<le> (of_char c :: nat) then of_char c - 97
      else if 65 \<le> (of_char c :: nat) then of_char c - 65
      else of_char c - 24)"

definition ascii :: "string \<Rightarrow> bool" where
  "ascii s = list_all (\<lambda>c. (of_char c :: nat) < 128) s"

text \<open>The five bits of a value below 32, most significant first.\<close>

definition bits5 :: "nat \<Rightarrow> bool list" where
  "bits5 v = [bit v 4, bit v 3, bit v 2, bit v 1, bit v 0]"

definition bitstream :: "string \<Rightarrow> bool list" where
  "bitstream s = concat (map (\<lambda>c. bits5 (symbol_value c)) s)"

definition bits_value :: "bool list \<Rightarrow> nat" where
  "bits_value bs = foldl (\<lambda>acc b. 2 * acc + (if b then 1 else 0)) 0 bs"

text \<open>Whole bytes from the front of a bitstream; the bits left over at the end are dropped.\<close>

function full_bytes :: "bool list \<Rightarrow> bytes" where
  "full_bytes bs =
     (if length bs < 8 then []
      else word_of_nat (bits_value (take 8 bs)) # full_bytes (drop 8 bs))"
  by pat_completeness auto
termination
  by (relation "measure length") auto

declare full_bytes.simps [simp del]

text \<open>
  The offsets a search over \<open>es\<close> looks at when it stops at the first element
  satisfying \<open>hit\<close>: everything before the first hit, and the hit itself.
\<close>

definition examined :: "('a \<Rightarrow> bool) \<Rightarrow> 'a list \<Rightarrow> 'a list" where
  "examined hit es =
     takeWhile (\<lambda>e. \<not> hit e) es @ take 1 (dropWhile (\<lambda>e. \<not> hit e) es)"

section \<open>Facts about bytes and 32-bit words\<close>

lemma uint_ucast_byte: "uint (ucast (b::byte) :: 32 word) = uint b"
  by (simp add: uint_up_ucast is_up)

lemma uint_byte_lt: "uint (b::byte) < 256"
  using uint_bounded [of b] by simp

lemma and_255: "uint (b::byte) AND 255 = uint b"
proof -
  have "uint b AND 255 = uint b AND mask 8" by (simp add: mask_eq_exp_minus_1)
  also have "\<dots> = take_bit 8 (uint b)" by (simp only: take_bit_eq_mask)
  also have "\<dots> = uint b" by (simp add: bintr_uint)
  finally show ?thesis .
qed


lemma and_127: "uint (b::byte) AND 127 = uint b mod 128"
proof -
  have "uint b AND 127 = uint b AND mask 7" by (simp add: mask_eq_exp_minus_1)
  also have "\<dots> = take_bit 7 (uint b)" by (simp only: take_bit_eq_mask)
  also have "\<dots> = uint b mod 128" by (simp add: take_bit_eq_mod)
  finally show ?thesis .
qed


lemma and_15: "uint (b::byte) AND 15 = uint b mod 16"
proof -
  have "uint b AND 15 = uint b AND mask 4" by (simp add: mask_eq_exp_minus_1)
  also have "\<dots> = take_bit 4 (uint b)" by (simp only: take_bit_eq_mask)
  also have "\<dots> = uint b mod 16" by (simp add: take_bit_eq_mod)
  finally show ?thesis .
qed


lemma push_or_add:
  fixes hi lo :: int
  assumes "0 \<le> lo" "lo < 2 ^ k"
  shows "push_bit k hi OR lo = hi * 2 ^ k + lo"
proof -
  have lo: "take_bit k lo = lo" using assms by (simp add: take_bit_int_eq_self)
  have "push_bit k hi AND take_bit k lo = 0"
    by (rule bit_eqI) (auto simp add: bit_simps)
  then have "push_bit k hi AND lo = 0" by (simp add: lo)
  then have "push_bit k hi + lo = push_bit k hi OR lo" by (rule disjunctive_add_eq_or)
  then show ?thesis by (simp add: push_bit_eq_mult)
qed

lemma uint_push_small:
  fixes x :: "32 word"
  assumes "uint x < 2 ^ (32 - k)" "k \<le> 32"
  shows "uint (push_bit k x) = uint x * 2 ^ k"
proof -
  have "uint (push_bit k x) = take_bit 32 (push_bit k (uint x))"
    by (simp add: unsigned_push_bit_eq)
  also have "\<dots> = push_bit k (take_bit (32 - k) (uint x))"
    by (simp add: take_bit_push_bit)
  also have "take_bit (32 - k) (uint x) = uint x"
    using assms by (simp add: take_bit_int_eq_self)
  finally show ?thesis by (simp add: push_bit_eq_mult)
qed

lemma sint_small: "uint (w :: 32 word) < 2 ^ 31 \<Longrightarrow> sint w = uint w"
proof -
  assume a: "uint w < 2 ^ 31"
  have "- (2 ^ 31) \<le> (0::int)" by simp
  then have "- (2 ^ 31) \<le> uint w" using uint_ge_0 [of w] by (rule order_trans)
  then have "signed_take_bit 31 (uint w) = uint w"
    using a by (rule signed_take_bit_int_eq_self)
  then show ?thesis by (simp add: sint_uint)
qed


lemma binary_word:
  fixes b0 b1 b2 b3 :: byte
  defines "W \<equiv> push_bit 24 ((ucast b0 :: 32 word) AND 0x7f) OR push_bit 16 ((ucast b1 :: 32 word) AND 0xff)
                 OR push_bit 8 ((ucast b2 :: 32 word) AND 0xff) OR ((ucast b3 :: 32 word) AND 0xff)"
  shows "sint W = (uint b0 mod 128) * 2 ^ 24 + uint b1 * 2 ^ 16 + uint b2 * 2 ^ 8 + uint b3"
proof -
  have u0: "uint ((ucast b0 :: 32 word) AND 0x7f) = uint b0 mod 128"
    by (simp add: uint_and uint_ucast_byte and_127)
  have u: "uint ((ucast b :: 32 word) AND 0xff) = uint b" for b :: byte
    by (simp add: uint_and uint_ucast_byte and_255)
  have lt: "uint b < 256" for b :: byte by (rule uint_byte_lt)
  have p0: "uint (push_bit 24 ((ucast b0 :: 32 word) AND 0x7f)) = push_bit 24 (uint b0 mod 128)"
    by (subst uint_push_small) (simp_all add: u0 push_bit_eq_mult)
  have p1: "uint (push_bit 16 ((ucast b1 :: 32 word) AND 0xff)) = push_bit 16 (uint b1)"
    using lt [of b1] by (subst uint_push_small) (simp_all add: u push_bit_eq_mult)
  have p2: "uint (push_bit 8 ((ucast b2 :: 32 word) AND 0xff)) = push_bit 8 (uint b2)"
    using lt [of b2] by (subst uint_push_small) (simp_all add: u push_bit_eq_mult)
  have W: "uint W = push_bit 24 (uint b0 mod 128) OR (push_bit 16 (uint b1) OR (push_bit 8 (uint b2) OR uint b3))"
    unfolding W_def by (simp only: uint_or p0 p1 p2 u)
  have s2: "push_bit 8 (uint b2) OR uint b3 = uint b2 * 2 ^ 8 + uint b3"
    using lt [of b3] by (intro push_or_add) simp_all
  have s1: "push_bit 16 (uint b1) OR (uint b2 * 2 ^ 8 + uint b3) = uint b1 * 2 ^ 16 + (uint b2 * 2 ^ 8 + uint b3)"
    using lt [of b2] lt [of b3] by (intro push_or_add) simp_all
  have s0: "push_bit 24 (uint b0 mod 128) OR (uint b1 * 2 ^ 16 + (uint b2 * 2 ^ 8 + uint b3))
            = (uint b0 mod 128) * 2 ^ 24 + (uint b1 * 2 ^ 16 + (uint b2 * 2 ^ 8 + uint b3))"
    using lt [of b1] lt [of b2] lt [of b3] by (intro push_or_add) simp_all
  have val: "uint W = (uint b0 mod 128) * 2 ^ 24 + uint b1 * 2 ^ 16 + uint b2 * 2 ^ 8 + uint b3"
    by (simp only: W s2 s1 s0 add.assoc)
  have "uint b0 mod 128 < 128" by simp
  then have "uint W < 2 ^ 31"
    using lt [of b1] lt [of b2] lt [of b3] unfolding val by simp
  then have "sint W = uint W" by (rule sint_small)
  then show ?thesis by (simp only: val)
qed

section \<open>The counter is encoded big-endian, modulo \<open>2^64\<close>\<close>

lemma foldl_big_endian:
  "foldl (\<lambda>acc b. 256 * acc + uint b) a bs
     = a * 256 ^ length bs + foldl (\<lambda>acc b. 256 * acc + uint b) 0 bs"
proof (induction bs arbitrary: a)
  case Nil
  show ?case by simp
next
  case (Cons x xs)
  have "foldl (\<lambda>acc b. 256 * acc + uint b) a (x # xs)
          = (256 * a + uint x) * 256 ^ length xs + foldl (\<lambda>acc b. 256 * acc + uint b) 0 xs"
    using Cons.IH [of "256 * a + uint x"] by simp
  moreover have "foldl (\<lambda>acc b. 256 * acc + uint b) 0 (x # xs)
          = uint x * 256 ^ length xs + foldl (\<lambda>acc b. 256 * acc + uint b) 0 xs"
    using Cons.IH [of "uint x"] by simp
  ultimately show ?case by (simp add: algebra_simps)
qed

lemma big_endian_value_Cons:
  "big_endian_value (b # bs) = uint b * 256 ^ length bs + big_endian_value bs"
  using foldl_big_endian [of "uint b" bs] by (simp add: big_endian_value_def)

lemma uint_byte_of_word64:
  "uint (ucast (drop_bit (8 * j) (v :: 64 word)) :: byte) = (uint v div 256 ^ j) mod 256"
proof -
  have e: "(2::int) ^ (8 * j) = 256 ^ j" by (simp add: power_mult)
  have "uint (ucast (drop_bit (8 * j) v) :: byte) = take_bit 8 (drop_bit (8 * j) (uint v))"
    by (simp only: unsigned_ucast_eq unsigned_drop_bit_eq) (simp add: bintr_uint)
  also have "\<dots> = (uint v div 2 ^ (8 * j)) mod 2 ^ 8"
    by (simp only: take_bit_eq_mod drop_bit_eq_div)
  finally show ?thesis by (simp only: e) simp
qed

lemma big_endian_bytes_of_word64:
  fixes v :: "64 word"
  shows "big_endian_value (rev (map (\<lambda>j. ucast (drop_bit (8 * j) v)) [0..<k])) = uint v mod 256 ^ k"
proof (induction k)
  case 0
  show ?case by (simp add: big_endian_value_def)
next
  case (Suc k)
  have "uint v mod (256 ^ k * 256)
          = 256 ^ k * (uint v div 256 ^ k mod 256) + uint v mod 256 ^ k"
    by (rule zmod_zmult2_eq) simp
  then have "uint v mod 256 ^ Suc k
          = (uint v div 256 ^ k mod 256) * 256 ^ k + uint v mod 256 ^ k"
    by (simp add: mult.commute)
  then show ?case
    by (simp add: big_endian_value_Cons uint_byte_of_word64 Suc.IH)
qed

lemma toUint8Array_bytes:
  "map (\<lambda>i. ucast (drop_bit (8 * (7 - i)) v) :: byte) [0..<8]
     = rev (map (\<lambda>j. ucast (drop_bit (8 * j) v)) [0..<8])"
  by (simp add: upt_rec numeral_eq_Suc)

lemma toUint8Array_value:
  "\<exists>m. toUint8Array (Fin n) = Inr m \<and> length m = 8 \<and> big_endian_value m = n mod 2 ^ 64"
proof -
  define v where "v = (word_of_int n :: 64 word)"
  define m where "m = map (\<lambda>i. ucast (drop_bit (8 * (7 - i)) v) :: byte) [0..<8]"
  have "toUint8Array (Fin n) = Inr m"
    by (simp add: toUint8Array_def Fin_def integral_def v_def m_def Let_def)
  moreover have "length m = 8" by (simp add: m_def)
  moreover have "big_endian_value m = uint v mod 256 ^ 8"
    unfolding m_def toUint8Array_bytes by (rule big_endian_bytes_of_word64)
  then have "big_endian_value m = n mod 2 ^ 64"
    by (simp add: v_def uint_word_of_int take_bit_eq_mod)
  ultimately show ?thesis by blast
qed

section \<open>Double arithmetic on integers\<close>

text \<open>
  The divisions of \<^verbatim>\<open>Math.floor(timestamp / 1000 / timeStep)\<close> are rounded to
  doubles. Whatever the rounding \<open>fl\<close> is, as long as its relative error is at
  most \<open>2^-53\<close> (on magnitudes between \<open>2^-100\<close> and \<open>2^100\<close>, well inside the
  normal range) and it leaves the integers up to \<open>2^53\<close> as they are, which
  rounding to the nearest double does, the result is the floor of the exact
  quotient for every timestamp and time step of magnitude below \<open>2^52\<close>.
\<close>

lemma double_counter_exact:
  fixes fl :: "real \<Rightarrow> real" and timestamp timeStep :: int
  assumes rounding: "\<And>x. 1 / 2 ^ 100 \<le> \<bar>x\<bar> \<Longrightarrow> \<bar>x\<bar> \<le> 2 ^ 100 \<Longrightarrow> \<bar>fl x - x\<bar> \<le> \<bar>x\<bar> / 2 ^ 53"
    and integers: "\<And>n :: int. \<bar>n\<bar> \<le> 2 ^ 53 \<Longrightarrow> fl (of_int n) = of_int n"
    and t: "\<bar>timestamp\<bar> < 2 ^ 52"
    and s: "timeStep \<noteq> 0" "\<bar>timeStep\<bar> < 2 ^ 52"
  shows "\<lfloor>fl (fl (of_int timestamp / 1000) / of_int timeStep)\<rfloor> = timestamp div (1000 * timeStep)"
proof -
  define D where "D = 1000 * timeStep"
  define k where "k = timestamp div D"
  define r where "r = timestamp mod D"
  have D: "D \<noteq> 0" using s by (simp add: D_def)
  have tkr: "timestamp = D * k + r" by (simp add: k_def r_def)
  have s1: "1 \<le> \<bar>timeStep\<bar>" using s by linarith
  have D1: "1000 \<le> \<bar>D\<bar>" using s1 by (simp add: D_def abs_mult)
  show ?thesis
  proof (cases "r = 0")
    case True
    then have tk: "timestamp = 1000 * (timeStep * k)" using tkr by (simp add: D_def)
    then have x: "real_of_int timestamp / 1000 = of_int (timeStep * k)" by simp
    have "\<bar>timeStep * k\<bar> \<le> \<bar>timestamp\<bar>" unfolding tk by (simp add: abs_mult)
    moreover have p: "(2::int) ^ 52 \<le> 2 ^ 53" by simp
    ultimately have b1: "\<bar>timeStep * k\<bar> \<le> 2 ^ 53" using t by linarith
    have "\<bar>k\<bar> \<le> \<bar>timeStep * k\<bar>" using s1 by (simp add: abs_mult mult_le_cancel_right1)
    then have b2: "\<bar>k\<bar> \<le> 2 ^ 53" using b1 by linarith
    have "fl (real_of_int timestamp / 1000) = of_int (timeStep * k)"
      unfolding x by (rule integers [OF b1])
    then have "fl (real_of_int timestamp / 1000) / of_int timeStep = of_int k"
      using s by simp
    then have "fl (fl (real_of_int timestamp / 1000) / of_int timeStep) = of_int k"
      using integers [OF b2] by simp
    then show ?thesis by (simp add: k_def D_def)
  next
    case False
    define u :: real where "u = 1 / 2 ^ 53"
    define z :: real where "z = of_int timestamp / of_int D"
    define x :: real where "x = of_int timestamp / 1000"
    define q1 where "q1 = fl x"
    define y where "y = q1 / of_int timeStep"
    define q2 where "q2 = fl y"
    define a where "a = \<bar>z\<bar>"
    define d :: real where "d = 1 / \<bar>of_int D\<bar>"
    have dpos: "0 < d" using D by (simp add: d_def)
    have d_le: "d \<le> 1 / 1000"
      using D1 by (simp add: d_def field_simps)
    have sd: "\<bar>real_of_int timeStep\<bar> * d = 1 / 1000"
      using s by (simp add: d_def D_def abs_mult)
    \<comment> \<open>the quotient is at least \<open>d\<close> away from the integers around it\<close>
    have zk: "z = of_int k + of_int r / of_int D"
      using D by (simp add: z_def tkr field_simps)
    have rD: "d \<le> real_of_int r / of_int D \<and> real_of_int r / of_int D \<le> 1 - d"
    proof (cases "0 < D")
      case True
      then have "0 \<le> r" "r < D" by (simp_all add: r_def)
      with False have "1 \<le> r" "r \<le> D - 1" by simp_all
      then have "1 \<le> real_of_int r" "real_of_int r \<le> of_int D - 1" by linarith+
      with True show ?thesis by (simp add: d_def field_simps)
    next
      case neg: False
      with D have Dn: "D < 0" by simp
      then have "r \<le> 0" "D < r" by (simp_all add: r_def)
      with False have "r \<le> - 1" "D + 1 \<le> r" by simp_all
      then have "real_of_int r \<le> - 1" "of_int D + 1 \<le> real_of_int r" by linarith+
      with Dn show ?thesis by (simp add: d_def field_simps)
    qed
    have lo: "of_int k + d \<le> z" and hi: "z \<le> of_int k + 1 - d"
      using rD by (simp_all add: zk)
    \<comment> \<open>the size of the quotient\<close>
    have tnz: "timestamp \<noteq> 0" using False by (auto simp add: r_def)
    then have t1: "1 \<le> \<bar>real_of_int timestamp\<bar>" by (simp add: abs_if)
    have t52: "\<bar>real_of_int timestamp\<bar> \<le> 2 ^ 52 - 1"
    proof -
      from t have "\<bar>timestamp\<bar> \<le> 2 ^ 52 - 1" by linarith
      then have "real_of_int \<bar>timestamp\<bar> \<le> real_of_int (2 ^ 52 - 1)" by (rule of_int_le_iff [THEN iffD2])
      then show ?thesis by simp
    qed
    have a_eq: "a = \<bar>real_of_int timestamp\<bar> * d"
      by (simp add: a_def z_def d_def)
    have a_lo: "d \<le> a" using t1 dpos unfolding a_eq by (simp add: mult_le_cancel_right1)
    have a_hi: "a \<le> (2 ^ 52 - 1) * d" using t52 dpos unfolding a_eq by (simp add: mult_right_mono)
    have upos: "0 < u" and u_small: "u \<le> 1 / 2" by (simp_all add: u_def)
    \<comment> \<open>first rounding\<close>
    have x_abs: "\<bar>x\<bar> = a * \<bar>of_int timeStep\<bar>"
      using s D by (simp add: x_def a_def z_def D_def abs_mult)
    have x_size: "\<bar>x\<bar> = \<bar>real_of_int timestamp\<bar> / 1000" by (simp add: x_def)
    have "1 / 2 ^ 100 \<le> \<bar>x\<bar>" using t1 unfolding x_size by simp
    moreover have "\<bar>x\<bar> \<le> 2 ^ 100" using t52 unfolding x_size by simp
    ultimately have e1: "\<bar>q1 - x\<bar> \<le> \<bar>x\<bar> * u"
      using rounding [of x] by (simp add: q1_def u_def)
    have yz: "y - z = (q1 - x) / of_int timeStep"
      using s by (simp add: y_def z_def x_def D_def field_simps)
    have "\<bar>y - z\<bar> = \<bar>q1 - x\<bar> / \<bar>of_int timeStep\<bar>" by (simp add: yz)
    also have "\<dots> \<le> (\<bar>x\<bar> * u) / \<bar>of_int timeStep\<bar>"
      using e1 s by (simp add: divide_right_mono)
    also have "\<dots> = a * u" using s by (simp add: x_abs)
    finally have yz_le: "\<bar>y - z\<bar> \<le> a * u" .
    \<comment> \<open>second rounding\<close>
    have a_nonneg: "0 \<le> a" by (simp add: a_def)
    have y_hi: "\<bar>y\<bar> \<le> a + a * u" using yz_le by (simp add: a_def)
    have y_lo: "a - a * u \<le> \<bar>y\<bar>" using yz_le by (simp add: a_def)
    have "a * u \<le> a * (1 / 2)" using u_small a_nonneg by (rule mult_left_mono)
    then have au: "a * u \<le> a / 2" by simp
    have d100: "1 / 2 ^ 100 \<le> d / 2"
    proof -
      have "\<bar>real_of_int D\<bar> \<le> 1000 * 2 ^ 52"
        using s(2) by (simp add: D_def abs_mult)
      then have "1 / (1000 * 2 ^ 52) \<le> d"
        using D unfolding d_def by (intro divide_left_mono) simp_all
      then show ?thesis by simp
    qed
    have "1 / 2 ^ 100 \<le> \<bar>y\<bar>" using y_lo au a_lo d100 by linarith
    moreover have "\<bar>y\<bar> \<le> 2 ^ 100"
    proof -
      have "a \<le> 2 ^ 52" using a_hi d_le by (simp add: algebra_simps)
      then show ?thesis using y_hi au by simp
    qed
    ultimately have e2: "\<bar>q2 - y\<bar> \<le> \<bar>y\<bar> * u"
      using rounding [of y] by (simp add: q2_def u_def)
    have "\<bar>y\<bar> * u \<le> (a + a * u) * u" using y_hi upos by (simp add: mult_right_mono)
    with e2 have e2': "\<bar>q2 - y\<bar> \<le> (a + a * u) * u" by linarith
    have "\<bar>q2 - z\<bar> \<le> \<bar>q2 - y\<bar> + \<bar>y - z\<bar>" by linarith
    with e2' yz_le have "\<bar>q2 - z\<bar> \<le> a * (u * (2 + u))" by (simp add: algebra_simps)
    also have "\<dots> \<le> ((2 ^ 52 - 1) * d) * (u * (2 + u))"
      using a_hi upos by (intro mult_right_mono) simp_all
    also have "\<dots> = d * ((2 ^ 52 - 1) * (u * (2 + u)))" by simp
    also have "\<dots> < d * 1"
    proof -
      have "(2 ^ 52 - 1) * (u * (2 + u)) < (1::real)" by (simp add: u_def)
      then show ?thesis using dpos by (intro mult_strict_left_mono)
    qed
    finally have close: "\<bar>q2 - z\<bar> < d" by simp
    from close lo hi have "of_int k \<le> q2" "q2 < of_int k + 1" by linarith+
    then have "\<lfloor>q2\<rfloor> = k" by (simp add: floor_unique)
    then show ?thesis by (simp add: q2_def y_def q1_def x_def k_def D_def)
  qed
qed

text \<open>The sum of two integers is exact when it stays within \<open>2^53\<close>.\<close>

lemma double_sum_exact:
  fixes fl :: "real \<Rightarrow> real" and counter errorWindow :: int
  assumes integers: "\<And>n :: int. \<bar>n\<bar> \<le> 2 ^ 53 \<Longrightarrow> fl (of_int n) = of_int n"
    and "\<bar>counter + errorWindow\<bar> \<le> 2 ^ 53"
  shows "fl (of_int counter + of_int errorWindow) = of_int (counter + errorWindow)"
  using integers [OF assms(2)] by simp

text \<open>
  So is the sum of an integer and a binary fraction of ten places, when the sum
  has no more than 53 bits: a rounding that leaves such numbers as they are,
  which rounding to the nearest double does, returns the exact sum.
\<close>

lemma double_fraction_exact:
  fixes fl :: "real \<Rightarrow> real" and counter n :: int
  assumes fractions: "\<And>m :: int. \<bar>m\<bar> \<le> 2 ^ 53 \<Longrightarrow> fl (of_int m / 2 ^ 10) = of_int m / 2 ^ 10"
    and "\<bar>counter\<bar> < 2 ^ 42 + 2 ^ 41" and "\<bar>of_int n / 2 ^ 10 :: real\<bar> < 2 ^ 41"
  shows "fl (of_int counter + of_int n / 2 ^ 10) = of_int counter + of_int n / 2 ^ 10"
proof -
  from assms(3) have "\<bar>real_of_int n\<bar> < 2 ^ 41 * 2 ^ 10" by (simp add: field_simps)
  then have "\<bar>real_of_int n\<bar> < real_of_int (2 ^ 51)" by simp
  then have n: "\<bar>n\<bar> < 2 ^ 51" by linarith
  have "\<bar>counter * 2 ^ 10 + n\<bar> \<le> \<bar>counter\<bar> * 2 ^ 10 + \<bar>n\<bar>"
    by (simp add: abs_mult order_trans [OF abs_triangle_ineq])
  also have "\<dots> \<le> (2 ^ 42 + 2 ^ 41) * 2 ^ 10 + 2 ^ 51" using assms(2) n by simp
  also have "\<dots> \<le> (2 :: int) ^ 53" by simp
  finally have "fl (of_int (counter * 2 ^ 10 + n) / 2 ^ 10) = of_int (counter * 2 ^ 10 + n) / 2 ^ 10"
    by (rule fractions)
  then show ?thesis by (simp add: add_divide_distrib)
qed

section \<open>Dynamic truncation\<close>

lemma byte_and_ucast:
  "byte_and hmac i m = ucast (if 0 \<le> i \<and> i < int (length hmac) then hmac ! nat i else 0) AND m"
  by (simp add: byte_and_def)

lemma sint_nibble: "sint ((ucast (b::byte) :: 32 word) AND 0x0f) = uint b mod 16"
proof -
  have u: "uint ((ucast b :: 32 word) AND 0x0f) = uint b mod 16"
    by (simp add: uint_and uint_ucast_byte and_15)
  have "uint b mod 16 < 16" by simp
  then have "uint ((ucast b :: 32 word) AND 0x0f) < 2 ^ 31" unfolding u by simp
  then show ?thesis using u by (simp add: sint_small)
qed

lemma hotp_offset_range: "0 \<le> hotp_offset hmac \<and> hotp_offset hmac < 16"
  by (simp add: hotp_offset_def byte_and_ucast sint_nibble)

lemma hotp_offset_last: "hmac \<noteq> [] \<Longrightarrow> hotp_offset hmac = uint (last hmac AND 0x0f)"
proof -
  assume ne: "hmac \<noteq> []"
  then have "nat (int (length hmac) - 1) = length hmac - 1" by (cases hmac) simp_all
  with ne show ?thesis
    by (simp add: hotp_offset_def byte_and_ucast sint_nibble uint_and and_15 last_conv_nth)
qed

lemma hotp_binary_value:
  "hotp_binary hmac =
     (uint (if 0 \<le> hotp_offset hmac \<and> hotp_offset hmac < int (length hmac)
            then hmac ! nat (hotp_offset hmac) else 0) mod 128) * 2 ^ 24
     + uint (if 0 \<le> hotp_offset hmac + 1 \<and> hotp_offset hmac + 1 < int (length hmac)
            then hmac ! nat (hotp_offset hmac + 1) else 0) * 2 ^ 16
     + uint (if 0 \<le> hotp_offset hmac + 2 \<and> hotp_offset hmac + 2 < int (length hmac)
            then hmac ! nat (hotp_offset hmac + 2) else 0) * 2 ^ 8
     + uint (if 0 \<le> hotp_offset hmac + 3 \<and> hotp_offset hmac + 3 < int (length hmac)
            then hmac ! nat (hotp_offset hmac + 3) else 0)"
  unfolding hotp_binary_def Let_def byte_and_ucast by (rule binary_word)

lemma four_bytes_bound:
  fixes b0 b1 b2 b3 :: byte
  shows "0 \<le> (uint b0 mod 128) * 2 ^ 24 + uint b1 * 2 ^ 16 + uint b2 * 2 ^ 8 + uint b3"
    and "(uint b0 mod 128) * 2 ^ 24 + uint b1 * 2 ^ 16 + uint b2 * 2 ^ 8 + uint b3 < 2 ^ 31"
proof -
  have "uint b0 mod 128 < 128" "0 \<le> uint b0 mod 128" by simp_all
  then show "0 \<le> (uint b0 mod 128) * 2 ^ 24 + uint b1 * 2 ^ 16 + uint b2 * 2 ^ 8 + uint b3"
    and "(uint b0 mod 128) * 2 ^ 24 + uint b1 * 2 ^ 16 + uint b2 * 2 ^ 8 + uint b3 < 2 ^ 31"
    using uint_byte_lt [of b1] uint_byte_lt [of b2] uint_byte_lt [of b3]
      uint_ge_0 [of b1] uint_ge_0 [of b2] uint_ge_0 [of b3]
    by simp_all
qed

lemma hotp_binary_range: "0 \<le> hotp_binary hmac \<and> hotp_binary hmac < 2 ^ 31"
  unfolding hotp_binary_value using four_bytes_bound by blast

lemma four_bytes_or:
  fixes b0 b1 b2 b3 :: byte
  shows "push_bit 24 (uint b0 AND 0x7f) OR push_bit 16 (uint b1) OR push_bit 8 (uint b2) OR uint b3
           = (uint b0 mod 128) * 2 ^ 24 + uint b1 * 2 ^ 16 + uint b2 * 2 ^ 8 + uint b3"
proof -
  have lt: "uint b < 256" for b :: byte by (rule uint_byte_lt)
  have s2: "push_bit 8 (uint b2) OR uint b3 = uint b2 * 2 ^ 8 + uint b3"
    using lt [of b3] by (intro push_or_add) simp_all
  have s1: "push_bit 16 (uint b1) OR (uint b2 * 2 ^ 8 + uint b3) = uint b1 * 2 ^ 16 + (uint b2 * 2 ^ 8 + uint b3)"
    using lt [of b2] lt [of b3] by (intro push_or_add) simp_all
  have s0: "push_bit 24 (uint b0 mod 128) OR (uint b1 * 2 ^ 16 + (uint b2 * 2 ^ 8 + uint b3))
            = (uint b0 mod 128) * 2 ^ 24 + (uint b1 * 2 ^ 16 + (uint b2 * 2 ^ 8 + uint b3))"
    using lt [of b1] lt [of b2] lt [of b3] by (intro push_or_add) simp_all
  show ?thesis by (simp only: and_127 s2 s1 s0 add.assoc)
qed

section \<open>Decimal rendering and the shape of a code\<close>

lemma digit_char_decimal:
  assumes "0 \<le> k" "k < 10"
  shows "decimal_digit (digit_chars ! nat k) \<and> int (of_char (digit_chars ! nat k)) - 48 = k"
proof -
  from assms have "k = 0 \<or> k = 1 \<or> k = 2 \<or> k = 3 \<or> k = 4 \<or> k = 5 \<or> k = 6 \<or> k = 7 \<or> k = 8 \<or> k = 9"
    by arith
  then show ?thesis
    by (elim disjE) (simp_all add: digit_chars_def decimal_digit_def)
qed

lemma decimal_value_snoc:
  "decimal_value (s @ [c]) = 10 * decimal_value s + (int (of_char c) - 48)"
  by (simp add: decimal_value_def)

lemma radix_digits_10:
  "0 \<le> n \<Longrightarrow>
     (\<forall>c\<in>set (radix_digits 10 n). decimal_digit c) \<and>
     decimal_value (radix_digits 10 n) = n \<and>
     radix_digits 10 n \<noteq> []"
proof (induction "nat n" arbitrary: n rule: less_induct)
  case less
  show ?case
  proof (cases "n < 10")
    case True
    with less.prems digit_char_decimal [of n] show ?thesis
      by (simp add: radix_digits.simps [of 10 n] decimal_value_def)
  next
    case False
    then have d: "0 \<le> n div 10" "nat (n div 10) < nat n" by simp_all
    have m: "0 \<le> n mod 10" "n mod 10 < 10" by simp_all
    from less.hyps [OF d(2) d(1)] digit_char_decimal [OF m] False show ?thesis
      by (simp add: radix_digits.simps [of 10 n] decimal_value_snoc)
  qed
qed

lemma length_radix_digits_10:
  "0 \<le> n \<Longrightarrow> n < 10 ^ d \<Longrightarrow> 0 < d \<Longrightarrow> length (radix_digits 10 n) \<le> d"
proof (induction d arbitrary: n)
  case 0
  then show ?case by simp
next
  case (Suc d)
  show ?case
  proof (cases "n < 10")
    case True
    then show ?thesis by (simp add: radix_digits.simps [of 10 n])
  next
    case False
    with Suc.prems have "0 < d" by (cases d) simp_all
    moreover have "n div 10 < 10 ^ d" using Suc.prems by (simp add: div_less_iff_less_mult mult.commute)
    moreover have "0 \<le> n div 10" using Suc.prems by simp
    ultimately have "length (radix_digits 10 (n div 10)) \<le> d" using Suc.IH by blast
    with False show ?thesis by (simp add: radix_digits.simps [of 10 n])
  qed
qed

lemma decimal_value_zeros: "decimal_value (replicate k CHR ''0'' @ s) = decimal_value s"
proof -
  have "foldl (\<lambda>acc c. 10 * acc + (int (of_char c) - 48)) 0 (replicate k CHR ''0'') = 0"
    by (induction k) simp_all
  then show ?thesis by (simp add: decimal_value_def)
qed

lemma js_rem_nonneg: "0 \<le> a \<Longrightarrow> 0 < b \<Longrightarrow> js_rem a b = a mod b"
  by (cases "a = 0") (simp_all add: js_rem_def)

lemma integral_of_int: "integral (of_int n)"
  by (simp add: integral_def)

lemma time_counter_floor:
  "timeStep \<noteq> 0 \<Longrightarrow>
     time_counter pf timestamp (of_int timeStep)
       = Fin \<lfloor>real_of_int timestamp / 1000 / real_of_int timeStep\<rfloor>"
proof -
  assume "timeStep \<noteq> 0"
  have "real_of_int timestamp / 1000 / real_of_int timeStep
          = real_of_int timestamp / real_of_int (1000 * timeStep)"
    by simp
  then have "\<lfloor>real_of_int timestamp / 1000 / real_of_int timeStep\<rfloor> = timestamp div (1000 * timeStep)"
    by (simp only: floor_divide_of_int_eq)
  with \<open>timeStep \<noteq> 0\<close> show ?thesis by (simp add: time_counter_def integral_of_int)
qed

lemma hotp_code_shape:
  fixes mac :: bytes and digits :: int
  assumes "0 < digits"
  defines "code \<equiv> padStart (nat digits) CHR ''0''
                     (number_toString 10 (js_rem (hotp_binary mac) (10 ^ nat digits)))"
  shows "int (length code) = digits \<and> (\<forall>c\<in>set code. decimal_digit c) \<and>
         decimal_value code = hotp_binary mac mod 10 ^ nat digits"
proof -
  define d where "d = nat digits"
  have d: "0 < d" "int d = digits" using assms(1) by (simp_all add: d_def)
  let ?n = "hotp_binary mac mod 10 ^ d"
  have n: "0 \<le> ?n" "?n < 10 ^ d" by simp_all
  have r: "js_rem (hotp_binary mac) (10 ^ d) = ?n"
    using hotp_binary_range [of mac] by (simp add: js_rem_nonneg)
  have "\<not> ?n < 0" using n(1) by linarith
  then have ts: "number_toString 10 ?n = radix_digits 10 ?n"
    by (simp only: number_toString_def if_False)
  have c: "code = replicate (d - length (radix_digits 10 ?n)) CHR ''0'' @ radix_digits 10 ?n"
    by (simp only: code_def d_def [symmetric] r ts padStart_def)
  have l: "length (radix_digits 10 ?n) \<le> d"
    using n d(1) by (intro length_radix_digits_10)
  have z: "decimal_digit CHR ''0''" by (simp add: decimal_digit_def)
  from radix_digits_10 [OF n(1)] l z d(2) show ?thesis
    unfolding c d_def [symmetric] by (auto simp add: decimal_value_zeros)
qed

lemma hotp_Fin:
  assumes "key \<noteq> []" and "toUint8Array (Fin counter) = Inr m" and "0 \<le> digits"
  shows "hotp pf key (Fin counter) \<lparr>opt_digits = Some (of_int digits), opt_algorithm = Some alg\<rparr>
           = (Inr (padStart (nat digits) CHR ''0''
                    (number_toString 10 (js_rem (hotp_binary (sign pf alg key m)) (10 ^ nat digits)))),
              [(alg, key, m)])"
  using assms by (simp add: hotp_def importKey_def Let_def integral_of_int)


lemma hotp_calls:
  assumes "key \<noteq> []" and "toUint8Array counter = Inr m"
  shows "\<exists>code. hotp pf key counter \<lparr>opt_digits = Some digits, opt_algorithm = Some alg\<rparr>
           = (Inr code, [(alg, key, m)])"
  using assms by (simp add: hotp_def importKey_def Let_def)

lemma hotp_fst_Inr:
  assumes "key \<noteq> []"
  shows "\<exists>code. fst (hotp pf key (Fin c) \<lparr>opt_digits = Some d, opt_algorithm = Some alg\<rparr>) = Inr code"
proof -
  obtain m where m: "toUint8Array (Fin c) = Inr m" using toUint8Array_value [of c] by blast
  from hotp_calls [OF assms m] show ?thesis by (metis fst_conv)
qed




lemma hotp_empty_key:
  "hotp pf [] counter \<lparr>opt_digits = d, opt_algorithm = alg\<rparr> = (Inl DataError, [])"
  by (simp add: hotp_def importKey_def Let_def)

text \<open>
  Claim C2 (dynamic truncation). Let \<open>mac\<close> be what the HMAC provider returns when \<^verbatim>\<open>hotp\<close> signs
  the encoded counter with a non-empty key, and let \<open>mac\<close> have 20, 32 or 64 bytes. Then the offset
  that \<^verbatim>\<open>hotp\<close> computes is the low nibble of the last byte, the four bytes from the offset on lie
  inside \<open>mac\<close>, the constant \<open>binary\<close> is the first of them without its top bit, shifted by 24,
  or-ed with the next three shifted by 16, 8 and 0, and \<open>binary\<close> is at least 0 and below \<open>2^31\<close>.
  The call of \<^verbatim>\<open>hotp\<close> itself signs that message once and returns the code that has \<open>digits\<close>
  decimal digits and denotes \<open>binary mod 10^digits\<close>, for an integer \<open>digits\<close> from 1 up to the
  longest padding a string can hold.
\<close>

theorem dynamic_truncation:
  fixes pf :: platform and digits :: int
  assumes key: "key \<noteq> []"
    and message: "toUint8Array (Fin counter) = Inr message"
    and mac: "sign pf alg key message = mac"
    and len: "length mac = 20 \<or> length mac = 32 \<or> length mac = 64"
    and digits: "1 \<le> digits" "digits \<le> 2 ^ 28 - 16"
  shows "hotp_offset mac = uint (last mac AND 0x0f) \<and>
         nat (hotp_offset mac) + 3 < length mac \<and>
         hotp_binary mac =
           (push_bit 24 (uint (mac ! nat (hotp_offset mac)) AND 0x7f)
            OR push_bit 16 (uint (mac ! (nat (hotp_offset mac) + 1)))
            OR push_bit 8 (uint (mac ! (nat (hotp_offset mac) + 2)))
            OR uint (mac ! (nat (hotp_offset mac) + 3))) \<and>
         0 \<le> hotp_binary mac \<and> hotp_binary mac < 2 ^ 31 \<and>
         (\<exists>code. hotp pf key (Fin counter) \<lparr>opt_digits = Some (of_int digits), opt_algorithm = Some alg\<rparr>
                    = (Inr code, [(alg, key, message)]) \<and>
                 int (length code) = digits \<and> (\<forall>c\<in>set code. decimal_digit c) \<and>
                 decimal_value code = hotp_binary mac mod 10 ^ nat digits)"
proof -
  from len have ne: "mac \<noteq> []" by auto
  have r: "0 \<le> hotp_offset mac" "hotp_offset mac < 16" using hotp_offset_range by simp_all
  with len have inr: "hotp_offset mac + 3 < int (length mac)" by auto
  have n1: "nat (hotp_offset mac + 1) = nat (hotp_offset mac) + 1"
    and n2: "nat (hotp_offset mac + 2) = nat (hotp_offset mac) + 2"
    and n3: "nat (hotp_offset mac + 3) = nat (hotp_offset mac) + 3"
    using r by simp_all
  have "hotp_binary mac =
          (uint (mac ! nat (hotp_offset mac)) mod 128) * 2 ^ 24
          + uint (mac ! (nat (hotp_offset mac) + 1)) * 2 ^ 16
          + uint (mac ! (nat (hotp_offset mac) + 2)) * 2 ^ 8
          + uint (mac ! (nat (hotp_offset mac) + 3))"
    using r inr by (subst hotp_binary_value) (simp add: n1 n2 n3)
  then have b: "hotp_binary mac =
           (push_bit 24 (uint (mac ! nat (hotp_offset mac)) AND 0x7f)
            OR push_bit 16 (uint (mac ! (nat (hotp_offset mac) + 1)))
            OR push_bit 8 (uint (mac ! (nat (hotp_offset mac) + 2)))
            OR uint (mac ! (nat (hotp_offset mac) + 3)))"
    by (simp only: four_bytes_or)
  have i: "nat (hotp_offset mac) + 3 < length mac" using r inr by linarith
  from digits have d: "0 < digits" "0 \<le> digits" by simp_all
  have h: "\<exists>code. hotp pf key (Fin counter) \<lparr>opt_digits = Some (of_int digits), opt_algorithm = Some alg\<rparr>
                    = (Inr code, [(alg, key, message)]) \<and>
                 int (length code) = digits \<and> (\<forall>c\<in>set code. decimal_digit c) \<and>
                 decimal_value code = hotp_binary mac mod 10 ^ nat digits"
    using hotp_code_shape [OF d(1), of mac] hotp_Fin [OF key message d(2), of pf alg]
    by (simp add: mac)
  from b i h hotp_offset_last [OF ne] hotp_binary_range [of mac] show ?thesis by blast
qed

text \<open>
  The example MAC of RFC 4226, section 5.4: offset 10, \<open>binary = 0x50ef7f19\<close>, code
  \<^verbatim>\<open>872921\<close>.
\<close>

theorem dynamic_truncation_witness:
  "[97] \<noteq> ([] :: bytes) \<and> toUint8Array (Fin 0) = Inr [0, 0, 0, 0, 0, 0, 0, 0] \<and>
   sign (fixed_mac rfc4226_mac) SHA_1 [97] [0, 0, 0, 0, 0, 0, 0, 0] = rfc4226_mac \<and>
   length rfc4226_mac = 20 \<and> (1::int) \<le> 6 \<and> (6::int) \<le> 2 ^ 28 - 16 \<and>
   hotp_offset rfc4226_mac = 10 \<and> hotp_binary rfc4226_mac = 0x50ef7f19 \<and>
   hotp (fixed_mac rfc4226_mac) [97] (Fin 0) \<lparr>opt_digits = Some 6, opt_algorithm = Some SHA_1\<rparr>
     = (Inr ''872921'', [(SHA_1, [97], [0, 0, 0, 0, 0, 0, 0, 0])])"
proof -
  have h1: "[97] \<noteq> ([] :: bytes)" by simp
  have h2: "toUint8Array (Fin 0) = Inr [0, 0, 0, 0, 0, 0, 0, 0]" by code_simp
  have h3: "sign (fixed_mac rfc4226_mac) SHA_1 [97] [0, 0, 0, 0, 0, 0, 0, 0] = rfc4226_mac"
    by (simp add: fixed_mac_def)
  have h4: "length rfc4226_mac = 20" by (simp add: rfc4226_mac_def)
  have h5: "(1::int) \<le> 6" "(6::int) \<le> 2 ^ 28 - 16" by simp_all
  have o: "uint (last rfc4226_mac AND 0x0f) = 10" by (simp add: rfc4226_mac_def)
  note t = dynamic_truncation [OF h1 h2 h3 disjI1 h5, OF h4]
  from t have off: "hotp_offset rfc4226_mac = 10" unfolding o by blast
  from t have "hotp_binary rfc4226_mac =
           (push_bit 24 (uint (rfc4226_mac ! nat (hotp_offset rfc4226_mac)) AND 0x7f)
            OR push_bit 16 (uint (rfc4226_mac ! (nat (hotp_offset rfc4226_mac) + 1)))
            OR push_bit 8 (uint (rfc4226_mac ! (nat (hotp_offset rfc4226_mac) + 2)))
            OR uint (rfc4226_mac ! (nat (hotp_offset rfc4226_mac) + 3)))"
    by blast
  then have bin: "hotp_binary rfc4226_mac = 0x50ef7f19"
    unfolding off by (simp add: rfc4226_mac_def)
  have v: "hotp (fixed_mac rfc4226_mac) [97] (Fin 0) \<lparr>opt_digits = Some 6, opt_algorithm = Some SHA_1\<rparr>
     = (Inr ''872921'', [(SHA_1, [97], [0, 0, 0, 0, 0, 0, 0, 0])])"
    by code_simp
  from h1 h2 h3 h4 h5 off bin v show ?thesis by blast
qed

text \<open>
  Claim C5 (code shape). For an integer \<open>digits\<close> from 1 up to the longest padding a string can
  hold, every non-empty key and every integer counter, \<^verbatim>\<open>hotp\<close> returns a code and does not throw; the code
  has exactly \<open>digits\<close> characters, each a decimal digit, and the number it denotes is
  \<open>binary mod 10^digits\<close>, where \<open>binary\<close> is the truncation of the MAC of the encoded counter: the
  code is that number in decimal, padded on the left with zeros. \<^verbatim>\<open>generateTOTP\<close> returns a code of
  the same shape for a secret that decodes to at least one byte, an integer time step other than
  0 and a timestamp, both below \<open>2^52\<close> in magnitude, where the double arithmetic of the source
  computes the counter exactly (\<open>double_counter_exact\<close>).
\<close>

theorem code_shape:
  fixes pf :: platform and digits timeStep timestamp :: int
  assumes digits: "1 \<le> digits" "digits \<le> 2 ^ 28 - 16"
  shows "(key \<noteq> [] \<longrightarrow>
            (\<exists>code m. toUint8Array (Fin counter) = Inr m \<and>
               fst (hotp pf key (Fin counter) \<lparr>opt_digits = Some (of_int digits), opt_algorithm = Some alg\<rparr>) = Inr code \<and>
               int (length code) = digits \<and> (\<forall>c\<in>set code. decimal_digit c) \<and>
               decimal_value code = hotp_binary (sign pf alg key m) mod 10 ^ nat digits)) \<and>
         (base32Decode secret = Inr decodedSecret \<and> decodedSecret \<noteq> [] \<and>
          timeStep \<noteq> 0 \<and> \<bar>timeStep\<bar> < 2 ^ 52 \<and> \<bar>timestamp\<bar> < 2 ^ 52 \<longrightarrow>
            (\<exists>code. fst (generateTOTP pf now secret
                    \<lparr>opt_digits = Some (of_int digits), opt_algorithm = Some alg, opt_timeStep = Some (of_int timeStep),
                     opt_timestamp = Some timestamp, opt_window = w\<rparr>) = Inr code \<and>
               int (length code) = digits \<and> (\<forall>c\<in>set code. decimal_digit c)))"
proof -
  from digits have d: "0 < digits" "0 \<le> digits" by simp_all
  have hotp: "\<exists>code m. toUint8Array (Fin c) = Inr m \<and>
            fst (hotp pf k (Fin c) \<lparr>opt_digits = Some (of_int digits), opt_algorithm = Some alg\<rparr>) = Inr code \<and>
            int (length code) = digits \<and> (\<forall>c\<in>set code. decimal_digit c) \<and>
            decimal_value code = hotp_binary (sign pf alg k m) mod 10 ^ nat digits"
    if k: "k \<noteq> []" for c k
  proof -
    obtain m where m: "toUint8Array (Fin c) = Inr m" using toUint8Array_value [of c] by blast
    from hotp_code_shape [OF d(1), of "sign pf alg k m"] hotp_Fin [OF k m d(2), of pf alg] m
    show ?thesis by simp
  qed
  have "\<exists>code. fst (generateTOTP pf now secret
                    \<lparr>opt_digits = Some (of_int digits), opt_algorithm = Some alg, opt_timeStep = Some (of_int timeStep),
                     opt_timestamp = Some timestamp, opt_window = w\<rparr>) = Inr code \<and>
            int (length code) = digits \<and> (\<forall>c\<in>set code. decimal_digit c)"
    if "base32Decode secret = Inr decodedSecret" "decodedSecret \<noteq> []" "timeStep \<noteq> 0"
    using hotp [of decodedSecret "timestamp div (1000 * timeStep)"] that
    by (auto simp add: generateTOTP_def time_counter_def integral_of_int)
  with hotp [of key counter] show ?thesis by blast
qed

text \<open>
  The secret \<^verbatim>\<open>ME\<close> decodes to the byte 97; at 59 seconds the counter is 1, the test double
  returns a MAC of bytes 1, and \<open>binary = 0x01010101 = 16843009\<close>.
\<close>

theorem code_shape_witness:
  "(1::int) \<le> 6 \<and> (6::int) \<le> 2 ^ 28 - 16 \<and> [97] \<noteq> ([] :: bytes) \<and>
   base32Decode ''ME'' = Inr [97] \<and> (30::int) \<noteq> 0 \<and> \<bar>30::int\<bar> < 2 ^ 52 \<and> \<bar>59000::int\<bar> < 2 ^ 52 \<and>
   fst (hotp stub_platform [97] (Fin 1) \<lparr>opt_digits = Some 6, opt_algorithm = Some SHA_1\<rparr>) = Inr ''843009'' \<and>
   fst (generateTOTP stub_platform 0 ''ME''
          \<lparr>opt_digits = Some 6, opt_algorithm = Some SHA_1, opt_timeStep = Some 30,
           opt_timestamp = Some 59000, opt_window = None\<rparr>) = Inr ''843009'' \<and>
   int (length ''843009'') = 6 \<and> decimal_value ''843009'' = 16843009 mod 10 ^ 6"
proof -
  have h1: "(1::int) \<le> 6" "(6::int) \<le> 2 ^ 28 - 16" by simp_all
  have k: "[97] \<noteq> ([] :: bytes)" by simp
  have h2: "base32Decode ''ME'' = Inr [97]" by code_simp
  have h3: "(30::int) \<noteq> 0" "\<bar>30::int\<bar> < 2 ^ 52" "\<bar>59000::int\<bar> < 2 ^ 52" by simp_all
  have v1: "fst (hotp stub_platform [97] (Fin 1) \<lparr>opt_digits = Some 6, opt_algorithm = Some SHA_1\<rparr>) = Inr ''843009''"
    by code_simp
  have v2: "fst (generateTOTP stub_platform 0 ''ME''
          \<lparr>opt_digits = Some 6, opt_algorithm = Some SHA_1, opt_timeStep = Some 30,
           opt_timestamp = Some 59000, opt_window = None\<rparr>) = Inr ''843009''"
    by code_simp
  have v3: "toUint8Array (Fin 1) = Inr [0, 0, 0, 0, 0, 0, 0, 1]" by code_simp
  have v4: "hotp_binary (sign stub_platform SHA_1 [97] [0, 0, 0, 0, 0, 0, 0, 1]) = 16843009" by code_simp
  from code_shape [OF h1, where counter = 1 and pf = stub_platform and key = "[97]" and alg = SHA_1
      and secret = "''ME''" and decodedSecret = "[97]" and timeStep = 30 and now = 0
      and timestamp = 59000 and w = None] k h2 h3
  have "int (length ''843009'') = 6 \<and> decimal_value ''843009'' = 16843009 mod 10 ^ 6"
    unfolding of_int_numeral v1 v2 v3 by (auto simp add: v4)
  with h1 k h2 h3 v1 v2 show ?thesis by blast
qed

section \<open>The verification loop\<close>

lemma examined_Nil: "examined hit [] = []"
  by (simp add: examined_def)

lemma examined_Cons:
  "examined hit (e # es) = (if hit e then [e] else e # examined hit es)"
  by (simp add: examined_def)

lemma jsnum_add_Fin: "jsnum_add (Fin c) (of_int e) = Fin (c + e)"
  by (simp add: Fin_def)

lemma verify_loop_Fin:
  fixes pf :: platform
  assumes key: "key \<noteq> []"
  defines "hopts d alg \<equiv> \<lparr>opt_digits = Some d, opt_algorithm = Some alg\<rparr>"
  shows "verify_loop pf token key (Fin c) (hopts d alg) (of_int w) (of_int e0) =
     (Inr (\<exists>e\<in>set [e0..w]. fst (hotp pf key (Fin (c + e)) (hopts d alg)) = Inr token),
      concat (map (\<lambda>e. snd (hotp pf key (Fin (c + e)) (hopts d alg)))
                (examined (\<lambda>e. fst (hotp pf key (Fin (c + e)) (hopts d alg)) = Inr token) [e0..w])))"
proof (induction "nat (w + 1 - e0)" arbitrary: e0)
  case 0
  then have "\<not> e0 \<le> w" by simp
  then show ?case
    by (subst verify_loop.simps) (simp add: examined_Nil)
next
  case (Suc n)
  then have le: "e0 \<le> w" and n: "n = nat (w + 1 - (e0 + 1))" by simp_all
  obtain code where code: "fst (hotp pf key (Fin (c + e0)) (hopts d alg)) = Inr code"
    unfolding hopts_def using hotp_fst_Inr [OF key] by blast
  then obtain calls where h: "hotp pf key (Fin (c + e0)) (hopts d alg) = (Inr code, calls)"
    by (cases "hotp pf key (Fin (c + e0)) (hopts d alg)") simp
  have next_offset: "(of_int e0 :: rat) + 1 = of_int (e0 + 1)" by simp
  show ?case
  proof (cases "code = token")
    case True
    with le h show ?thesis
      by (subst verify_loop.simps)
        (auto simp add: jsnum_add_Fin upto_rec1 [OF le] examined_Cons)
  next
    case False
    with le h Suc.hyps(1) [OF n] show ?thesis
      by (subst verify_loop.simps)
        (simp add: jsnum_add_Fin next_offset upto_rec1 [OF le] examined_Cons del: of_int_add)
  qed
qed

lemma verify_loop_window:
  assumes "key \<noteq> []"
  shows "verify_loop pf token key (Fin c) \<lparr>opt_digits = Some d, opt_algorithm = Some alg\<rparr>
           (of_int w) (- of_int w) =
     (Inr (\<exists>e\<in>set [- w..w].
             fst (hotp pf key (Fin (c + e)) \<lparr>opt_digits = Some d, opt_algorithm = Some alg\<rparr>) = Inr token),
      concat (map (\<lambda>e. snd (hotp pf key (Fin (c + e)) \<lparr>opt_digits = Some d, opt_algorithm = Some alg\<rparr>))
                (examined (\<lambda>e. fst (hotp pf key (Fin (c + e))
                                      \<lparr>opt_digits = Some d, opt_algorithm = Some alg\<rparr>) = Inr token)
                   [- w..w])))"
  using verify_loop_Fin [OF assms, of pf token c d alg w "- w"] by simp

lemma time_counter_int:
  "timeStep \<noteq> 0 \<Longrightarrow>
     time_counter pf timestamp (of_int timeStep) = Fin (timestamp div (1000 * timeStep))"
  by (simp add: time_counter_def integral_of_int)

lemma verifyTOTP_unfold:
  assumes "base32Decode secret = Inr key"
  shows "verifyTOTP pf now token secret
           \<lparr>opt_digits = Some digits, opt_algorithm = Some alg, opt_timeStep = Some timeStep,
            opt_timestamp = Some timestamp, opt_window = Some window\<rparr>
         = verify_loop pf token key (time_counter pf timestamp timeStep)
             \<lparr>opt_digits = Some digits, opt_algorithm = Some alg\<rparr> window (- window)"
  by (simp add: verifyTOTP_def assms)

text \<open>
  Claim C3 (verification window search). Take a secret that decodes to at least one byte, an
  integer \<open>digits\<close> from 1 up to the longest padding a string can hold, an integer window
  \<open>0 \<le> window < 2^52\<close>, an integer time step other than zero and a timestamp, both of magnitude
  below \<open>2^52\<close>, so that the double arithmetic of the source is exact
  (\<open>double_counter_exact\<close>, \<open>double_sum_exact\<close>). Then
  \<^verbatim>\<open>verifyTOTP\<close> works from the base counter \<open>floor(timestamp / 1000 / timeStep)\<close>. It returns
  true if and only if, for some \<open>errorWindow\<close> in the interval from \<open>-window\<close> to \<open>+window\<close>, the
  code of \<^verbatim>\<open>hotp\<close> at \<open>counter + errorWindow\<close> is the token, compared as strings; otherwise it
  returns false. The signer is called for the offsets in increasing order from \<open>-window\<close>, up to
  and including the first offset whose code matches, and for no later one.
\<close>

theorem verification_window_search:
  fixes pf :: platform and alg :: algorithm
    and digits timeStep timestamp window :: int
  assumes secret: "base32Decode secret = Inr key" "key \<noteq> []"
    and digits: "1 \<le> digits" "digits \<le> 2 ^ 28 - 16"
    and window: "0 \<le> window" "window < 2 ^ 52"
    and step: "timeStep \<noteq> 0" "\<bar>timeStep\<bar> < 2 ^ 52"
    and timestamp: "\<bar>timestamp\<bar> < 2 ^ 52"
  defines "counter \<equiv> \<lfloor>real_of_int timestamp / 1000 / real_of_int timeStep\<rfloor>"
  defines "opts \<equiv> \<lparr>opt_digits = Some (of_int digits), opt_algorithm = Some alg, opt_timeStep = Some (of_int timeStep),
                     opt_timestamp = Some timestamp, opt_window = Some (of_int window)\<rparr>"
  defines "code \<equiv> \<lambda>e. fst (hotp pf key (Fin (counter + e)) \<lparr>opt_digits = Some (of_int digits), opt_algorithm = Some alg\<rparr>)"
  shows "fst (verifyTOTP pf now token secret opts) = Inr (\<exists>e\<in>{- window..window}. code e = Inr token) \<and>
         snd (verifyTOTP pf now token secret opts) =
           concat (map (\<lambda>e. snd (hotp pf key (Fin (counter + e)) \<lparr>opt_digits = Some (of_int digits), opt_algorithm = Some alg\<rparr>))
                     (examined (\<lambda>e. code e = Inr token) [- window..window]))"
  unfolding opts_def code_def counter_def verifyTOTP_unfold [OF secret(1)] time_counter_floor [OF step(1)]
  by (simp only: verify_loop_window [OF secret(2)] fst_conv snd_conv set_upto)

text \<open>
  At 59 seconds with a 30-second step the counter is 1. The token \<^verbatim>\<open>843009\<close> is the code
  of counter 1, so the search looks at counter 0, then at counter 1, and stops.
\<close>

theorem verification_window_search_witness:
  "base32Decode ''ME'' = Inr [97] \<and> [97] \<noteq> ([] :: bytes) \<and> (1::int) \<le> 6 \<and> (6::int) \<le> 2 ^ 28 - 16 \<and>
   (0::int) \<le> 1 \<and> (1::int) < 2 ^ 52 \<and> (30::int) \<noteq> 0 \<and> \<bar>30::int\<bar> < 2 ^ 52 \<and> \<bar>59000::int\<bar> < 2 ^ 52 \<and>
   \<lfloor>real_of_int 59000 / 1000 / real_of_int 30\<rfloor> = 1 \<and>
   fst (hotp stub_platform [97] (Fin 0) \<lparr>opt_digits = Some 6, opt_algorithm = Some SHA_1\<rparr>) = Inr ''000000'' \<and>
   fst (hotp stub_platform [97] (Fin 1) \<lparr>opt_digits = Some 6, opt_algorithm = Some SHA_1\<rparr>) = Inr ''843009'' \<and>
   verifyTOTP stub_platform 0 ''843009'' ''ME''
     \<lparr>opt_digits = Some 6, opt_algorithm = Some SHA_1, opt_timeStep = Some 30,
      opt_timestamp = Some 59000, opt_window = Some 1\<rparr>
   = (Inr True, [(SHA_1, [97], [0, 0, 0, 0, 0, 0, 0, 0]), (SHA_1, [97], [0, 0, 0, 0, 0, 0, 0, 1])])"
proof -
  let ?h = "\<lparr>opt_digits = Some 6, opt_algorithm = Some SHA_1\<rparr>"
  have h1: "base32Decode ''ME'' = Inr [97]" "[97] \<noteq> ([] :: bytes)" by code_simp simp
  have hd: "(1::int) \<le> 6" "(6::int) \<le> 2 ^ 28 - 16" by simp_all
  have h2: "(0::int) \<le> 1" "(1::int) < 2 ^ 52" by simp_all
  have h3: "(30::int) \<noteq> 0" "\<bar>30::int\<bar> < 2 ^ 52" by simp_all
  have h4: "\<bar>59000::int\<bar> < 2 ^ 52" by simp
  have c: "\<lfloor>real_of_int 59000 / 1000 / real_of_int 30\<rfloor> = 1" by simp
  have v0: "fst (hotp stub_platform [97] (Fin 0) ?h) = Inr ''000000''" by code_simp
  have v1: "fst (hotp stub_platform [97] (Fin 1) ?h) = Inr ''843009''" by code_simp
  have r1: "(\<exists>e\<in>{- 1..1}. fst (hotp stub_platform [97] (Fin (1 + e)) ?h) = Inr ''843009'') = True"
    by code_simp
  have r2: "concat (map (\<lambda>e. snd (hotp stub_platform [97] (Fin (1 + e)) ?h))
                     (examined (\<lambda>e. fst (hotp stub_platform [97] (Fin (1 + e)) ?h) = Inr ''843009'') [- 1..1]))
            = [(SHA_1, [97], [0, 0, 0, 0, 0, 0, 0, 0]), (SHA_1, [97], [0, 0, 0, 0, 0, 0, 0, 1])]"
    by code_simp
  note t = verification_window_search [OF h1 hd h2 h3 h4, where pf = stub_platform
      and now = 0 and token = "''843009''" and alg = SHA_1, unfolded of_int_numeral [where 'a = rat] of_int_1 [where 'a = rat]]
  have "verifyTOTP stub_platform 0 ''843009'' ''ME''
     \<lparr>opt_digits = Some 6, opt_algorithm = Some SHA_1, opt_timeStep = Some 30,
      opt_timestamp = Some 59000, opt_window = Some 1\<rparr>
   = (Inr True, [(SHA_1, [97], [0, 0, 0, 0, 0, 0, 0, 0]), (SHA_1, [97], [0, 0, 0, 0, 0, 0, 0, 1])])"
    using t unfolding c r1 r2 by (simp add: prod_eq_iff)
  with h1 hd h2 h3 h4 c v0 v1 show ?thesis by blast
qed

text \<open>
  Claim C9 (negative window). For a secret that decodes and a window below zero,
  \<^verbatim>\<open>verifyTOTP\<close> returns false and raises nothing: the loop from \<open>-window\<close> to
  \<open>+window\<close> has no iteration, and the signer is not called at all.
\<close>

theorem negative_window_returns_false:
  assumes "base32Decode secret = Inr key"
    and "opt_window opts = Some window"
    and "window < 0"
  shows "verifyTOTP pf now token secret opts = (Inr False, [])"
proof -
  from assms(3) have "\<not> - window \<le> window" by simp
  then have "verify_loop pf token key c h window (- window) = (Inr False, [])" for c h
    by (subst verify_loop.simps) simp
  with assms(1,2) show ?thesis by (simp add: verifyTOTP_def Let_def)
qed

theorem negative_window_returns_false_witness:
  "base32Decode ''ME'' = Inr [97] \<and> (- 1::rat) < 0 \<and>
   verifyTOTP stub_platform 0 ''843009'' ''ME''
     \<lparr>opt_digits = Some 6, opt_algorithm = Some SHA_1, opt_timeStep = Some 30,
      opt_timestamp = Some 59000, opt_window = Some (- 1)\<rparr> = (Inr False, [])"
proof -
  have h1: "base32Decode ''ME'' = Inr [97]" by code_simp
  have h2: "opt_window \<lparr>opt_digits = Some 6, opt_algorithm = Some SHA_1, opt_timeStep = Some 30,
      opt_timestamp = Some 59000, opt_window = Some (- 1)\<rparr> = Some (- 1)" by simp
  have h3: "(- 1::rat) < 0" by simp
  from negative_window_returns_false [OF h1 h2 h3] h1 h3 show ?thesis by blast
qed

text \<open>
  Claim C1 (round trip). For every secret that decodes to at least one byte, integers \<open>digits\<close>
  from 1 up to the longest padding a string can hold, \<open>1 \<le> timeStep < 2^52\<close> and
  \<open>0 \<le> window < 2^52\<close>, a timestamp of magnitude below \<open>2^52\<close>, every algorithm, and a signer
  that is a fixed function,
  \<^verbatim>\<open>generateTOTP\<close> returns a code and \<^verbatim>\<open>verifyTOTP\<close> of that code, with the same secret and
  options, returns true.
\<close>

theorem round_trip:
  fixes pf :: platform and alg :: algorithm
    and digits timeStep timestamp window :: int
  assumes secret: "base32Decode secret = Inr key" "key \<noteq> []"
    and digits: "1 \<le> digits" "digits \<le> 2 ^ 28 - 16"
    and step: "1 \<le> timeStep" "timeStep < 2 ^ 52"
    and timestamp: "\<bar>timestamp\<bar> < 2 ^ 52"
    and window: "0 \<le> window" "window < 2 ^ 52"
  defines "opts \<equiv> \<lparr>opt_digits = Some (of_int digits), opt_algorithm = Some alg, opt_timeStep = Some (of_int timeStep),
                     opt_timestamp = Some timestamp, opt_window = Some (of_int window)\<rparr>"
  shows "\<exists>code. fst (generateTOTP pf now secret opts) = Inr code \<and>
                fst (verifyTOTP pf now' code secret opts) = Inr True"
proof -
  from step have nz: "timeStep \<noteq> 0" by simp
  let ?c = "timestamp div (1000 * timeStep)"
  let ?h = "\<lparr>opt_digits = Some (of_int digits), opt_algorithm = Some alg\<rparr>"
  obtain code where code: "fst (hotp pf key (Fin ?c) ?h) = Inr code"
    using hotp_fst_Inr [OF secret(2)] by blast
  have g: "fst (generateTOTP pf now secret opts) = Inr code"
    using code nz by (simp add: generateTOTP_def opts_def secret(1) time_counter_int)
  from window have "(0::int) \<in> set [- window..window]" by simp
  with code have "\<exists>e\<in>set [- window..window]. fst (hotp pf key (Fin (?c + e)) ?h) = Inr code"
    by (intro bexI [of _ 0]) simp_all
  then have "fst (verifyTOTP pf now' code secret opts) = Inr True"
    by (simp add: opts_def verifyTOTP_unfold [OF secret(1)] time_counter_int [OF nz]
        verify_loop_window [OF secret(2)])
  with g show ?thesis by blast
qed

theorem round_trip_witness:
  "base32Decode ''ME'' = Inr [97] \<and> [97] \<noteq> ([] :: bytes) \<and> (1::int) \<le> 6 \<and> (6::int) \<le> 2 ^ 28 - 16 \<and>
   (1::int) \<le> 30 \<and> (30::int) < 2 ^ 52 \<and> \<bar>59000::int\<bar> < 2 ^ 52 \<and> (0::int) \<le> 1 \<and> (1::int) < 2 ^ 52 \<and>
   fst (generateTOTP stub_platform 0 ''ME''
          \<lparr>opt_digits = Some 6, opt_algorithm = Some SHA_1, opt_timeStep = Some 30,
           opt_timestamp = Some 59000, opt_window = Some 1\<rparr>) = Inr ''843009'' \<and>
   fst (verifyTOTP stub_platform 0 ''843009'' ''ME''
          \<lparr>opt_digits = Some 6, opt_algorithm = Some SHA_1, opt_timeStep = Some 30,
           opt_timestamp = Some 59000, opt_window = Some 1\<rparr>) = Inr True"
proof -
  have h1: "base32Decode ''ME'' = Inr [97]" "[97] \<noteq> ([] :: bytes)" by code_simp simp
  have h2: "(1::int) \<le> 6" "(6::int) \<le> 2 ^ 28 - 16" by simp_all
  have h3: "(1::int) \<le> 30" "(30::int) < 2 ^ 52" by simp_all
  have h4: "\<bar>59000::int\<bar> < 2 ^ 52" by simp
  have h5: "(0::int) \<le> 1" "(1::int) < 2 ^ 52" by simp_all
  have g: "fst (generateTOTP stub_platform 0 ''ME''
          \<lparr>opt_digits = Some 6, opt_algorithm = Some SHA_1, opt_timeStep = Some 30,
           opt_timestamp = Some 59000, opt_window = Some 1\<rparr>) = Inr ''843009''"
    by code_simp
  from round_trip [OF h1 h2 h3 h4 h5, where pf = stub_platform and now = 0 and now' = 0
      and alg = SHA_1, unfolded of_int_numeral [where 'a = rat] of_int_1 [where 'a = rat]]
  have "fst (verifyTOTP stub_platform 0 ''843009'' ''ME''
          \<lparr>opt_digits = Some 6, opt_algorithm = Some SHA_1, opt_timeStep = Some 30,
           opt_timestamp = Some 59000, opt_window = Some 1\<rparr>) = Inr True"
    unfolding g by simp
  with h1 h2 h3 h4 h5 g show ?thesis by blast
qed

text \<open>
  Claim C10 (counter encoding). For every integer counter and every non-empty key, the message
  that \<^verbatim>\<open>hotp\<close> passes to the signer has 8 bytes and is the big-endian encoding of the counter
  modulo \<open>2^64\<close>. A negative counter is not rejected: when the base counter
  \<open>floor(timestamp / 1000 / timeStep)\<close> is below the window, \<^verbatim>\<open>verifyTOTP\<close> returns a
  boolean, and its first call of the signer carries the encoding of the negative
  number \<open>counter - window\<close> modulo \<open>2^64\<close>. The secret decodes to at least one byte, and the
  time step, the timestamp and the window are integers below \<open>2^52\<close> in magnitude, where the
  double arithmetic of the source is exact.
\<close>

theorem counter_encoding:
  fixes pf :: platform and alg :: algorithm
    and digits timeStep timestamp window :: int
  assumes digits: "1 \<le> digits" "digits \<le> 2 ^ 28 - 16"
  defines "opts \<equiv> \<lparr>opt_digits = Some (of_int digits), opt_algorithm = Some alg, opt_timeStep = Some (of_int timeStep),
                     opt_timestamp = Some timestamp, opt_window = Some (of_int window)\<rparr>"
  defines "first \<equiv> \<lfloor>real_of_int timestamp / 1000 / real_of_int timeStep\<rfloor> - window"
  shows "(key \<noteq> [] \<longrightarrow>
           (\<exists>m. toUint8Array (Fin counter) = Inr m \<and> length m = 8 \<and>
              big_endian_value m = counter mod 2 ^ 64 \<and>
              snd (hotp pf key (Fin counter) \<lparr>opt_digits = Some (of_int digits), opt_algorithm = Some alg\<rparr>)
                = [(alg, key, m)])) \<and>
         (base32Decode secret = Inr decodedSecret \<and> decodedSecret \<noteq> [] \<and>
          1 \<le> timeStep \<and> timeStep < 2 ^ 52 \<and> \<bar>timestamp\<bar> < 2 ^ 52 \<and>
          0 \<le> window \<and> window < 2 ^ 52 \<and>
          \<lfloor>real_of_int timestamp / 1000 / real_of_int timeStep\<rfloor> < window \<longrightarrow>
            (\<exists>result m calls.
               verifyTOTP pf now token secret opts = (Inr result, (alg, decodedSecret, m) # calls) \<and>
               first < 0 \<and> length m = 8 \<and> big_endian_value m = first mod 2 ^ 64))"
proof -
  let ?h = "\<lparr>opt_digits = Some (of_int digits), opt_algorithm = Some alg\<rparr>"
  from digits have d0: "0 \<le> digits" by simp
  have enc: "\<exists>m. toUint8Array (Fin c) = Inr m \<and> length m = 8 \<and>
              big_endian_value m = c mod 2 ^ 64 \<and>
              snd (hotp pf k (Fin c) ?h) = [(alg, k, m)]" if k: "k \<noteq> []" for c k
  proof -
    obtain m where m: "toUint8Array (Fin c) = Inr m" "length m = 8" "big_endian_value m = c mod 2 ^ 64"
      using toUint8Array_value [of c] by blast
    then show ?thesis by (simp add: hotp_Fin [OF k m(1) d0])
  qed
  have reach: "\<exists>result m calls.
               verifyTOTP pf now token secret opts = (Inr result, (alg, decodedSecret, m) # calls) \<and>
               first < 0 \<and> length m = 8 \<and> big_endian_value m = first mod 2 ^ 64"
    if secret: "base32Decode secret = Inr decodedSecret" and ne: "decodedSecret \<noteq> []"
      and step: "1 \<le> timeStep" and window: "0 \<le> window"
      and below: "\<lfloor>real_of_int timestamp / 1000 / real_of_int timeStep\<rfloor> < window"
  proof -
    from step have nz: "timeStep \<noteq> 0" by simp
    let ?c = "\<lfloor>real_of_int timestamp / 1000 / real_of_int timeStep\<rfloor>"
    let ?hit = "\<lambda>e. fst (hotp pf decodedSecret (Fin (?c + e)) ?h) = Inr token"
    obtain m where m: "toUint8Array (Fin first) = Inr m" "length m = 8"
        "big_endian_value m = first mod 2 ^ 64"
        "snd (hotp pf decodedSecret (Fin first) ?h) = [(alg, decodedSecret, m)]"
      using enc [OF ne, of first] by blast
    have le: "- window \<le> window" using window by simp
    have ex: "examined ?hit [- window..window]
                = - window # (if ?hit (- window) then [] else examined ?hit [- window + 1..window])"
      by (simp add: upto_rec1 [OF le] examined_Cons)
    have "verifyTOTP pf now token secret opts =
            (Inr (\<exists>e\<in>set [- window..window]. ?hit e),
             concat (map (\<lambda>e. snd (hotp pf decodedSecret (Fin (?c + e)) ?h))
                       (examined ?hit [- window..window])))"
      by (simp only: opts_def verifyTOTP_unfold [OF secret] time_counter_floor [OF nz]
          verify_loop_window [OF ne])
    also have "concat (map (\<lambda>e. snd (hotp pf decodedSecret (Fin (?c + e)) ?h))
                         (examined ?hit [- window..window]))
         = (alg, decodedSecret, m)
             # concat (map (\<lambda>e. snd (hotp pf decodedSecret (Fin (?c + e)) ?h))
                         (if ?hit (- window) then [] else examined ?hit [- window + 1..window]))"
      unfolding ex using m(4) by (simp add: first_def)
    finally have "\<exists>result calls.
        verifyTOTP pf now token secret opts = (Inr result, (alg, decodedSecret, m) # calls)"
      by blast
    moreover have "first < 0" using below by (simp add: first_def)
    ultimately show ?thesis using m(2,3) by blast
  qed
  from enc [of key counter] reach show ?thesis by blast
qed

text \<open>
  Just under 30 seconds with a window of 1: the first counter examined is \<open>-1\<close>, sent
  to the signer as eight bytes \<open>0xff\<close>, the encoding of \<open>2^64 - 1\<close>.
\<close>

theorem counter_encoding_witness:
  "(1::int) \<le> 6 \<and> (6::int) \<le> 2 ^ 28 - 16 \<and> [97] \<noteq> ([] :: bytes) \<and>
   base32Decode ''ME'' = Inr [97] \<and> (1::int) \<le> 30 \<and> (30::int) < 2 ^ 52 \<and> \<bar>29999::int\<bar> < 2 ^ 52 \<and>
   (0::int) \<le> 1 \<and> (1::int) < 2 ^ 52 \<and>
   \<lfloor>real_of_int 29999 / 1000 / real_of_int 30\<rfloor> < (1::int) \<and>
   toUint8Array (Fin (- 1)) = Inr [255, 255, 255, 255, 255, 255, 255, 255] \<and>
   big_endian_value [255, 255, 255, 255, 255, 255, 255, 255] = 2 ^ 64 - 1 \<and>
   snd (hotp stub_platform [97] (Fin (- 1)) \<lparr>opt_digits = Some 6, opt_algorithm = Some SHA_1\<rparr>)
     = [(SHA_1, [97], [255, 255, 255, 255, 255, 255, 255, 255])] \<and>
   (\<exists>result calls. verifyTOTP stub_platform 0 ''843009'' ''ME''
      \<lparr>opt_digits = Some 6, opt_algorithm = Some SHA_1, opt_timeStep = Some 30,
       opt_timestamp = Some 29999, opt_window = Some 1\<rparr>
     = (Inr result, (SHA_1, [97], [255, 255, 255, 255, 255, 255, 255, 255]) # calls))"
proof -
  have hd: "(1::int) \<le> 6" "(6::int) \<le> 2 ^ 28 - 16" by simp_all
  have k: "[97] \<noteq> ([] :: bytes)" by simp
  have h1: "base32Decode ''ME'' = Inr [97]" by code_simp
  have h2: "(1::int) \<le> 30" "(30::int) < 2 ^ 52" "\<bar>29999::int\<bar> < 2 ^ 52" by simp_all
  have h3: "(0::int) \<le> 1" "(1::int) < 2 ^ 52" by simp_all
  have c0: "\<lfloor>real_of_int 29999 / 1000 / real_of_int 30\<rfloor> = (0::int)"
    by (simp add: floor_eq_iff)
  have h4: "\<lfloor>real_of_int 29999 / 1000 / real_of_int 30\<rfloor> < (1::int)"
    unfolding c0 by simp
  have e: "toUint8Array (Fin (- 1)) = Inr [255, 255, 255, 255, 255, 255, 255, 255]" by code_simp
  have v: "verifyTOTP stub_platform 0 ''843009'' ''ME''
      \<lparr>opt_digits = Some 6, opt_algorithm = Some SHA_1, opt_timeStep = Some 30,
       opt_timestamp = Some 29999, opt_window = Some 1\<rparr>
     = (Inr True, [(SHA_1, [97], [255, 255, 255, 255, 255, 255, 255, 255]),
                    (SHA_1, [97], [0, 0, 0, 0, 0, 0, 0, 0]),
                    (SHA_1, [97], [0, 0, 0, 0, 0, 0, 0, 1])])"
    by code_simp
  note t = counter_encoding [OF hd, where counter = "- 1" and pf = stub_platform and key = "[97]" and now = 0
      and token = "''843009''" and alg = SHA_1 and secret = "''ME''"
      and decodedSecret = "[97]" and timeStep = 30 and timestamp = 29999 and window = 1,
      unfolded of_int_numeral [where 'a = rat] of_int_1 [where 'a = rat]]
  from t k have m: "\<exists>m. toUint8Array (Fin (- 1)) = Inr m \<and> big_endian_value m = - 1 mod 2 ^ 64 \<and>
      snd (hotp stub_platform [97] (Fin (- 1)) \<lparr>opt_digits = Some 6, opt_algorithm = Some SHA_1\<rparr>)
        = [(SHA_1, [97], m)]"
    by blast
  then have b: "big_endian_value [255, 255, 255, 255, 255, 255, 255, 255] = 2 ^ 64 - 1"
    unfolding e by simp
  from m have s: "snd (hotp stub_platform [97] (Fin (- 1)) \<lparr>opt_digits = Some 6, opt_algorithm = Some SHA_1\<rparr>)
     = [(SHA_1, [97], [255, 255, 255, 255, 255, 255, 255, 255])]"
    unfolding e by simp
  from t k h1 h2 h3 h4 have "\<exists>result m calls. verifyTOTP stub_platform 0 ''843009'' ''ME''
      \<lparr>opt_digits = Some 6, opt_algorithm = Some SHA_1, opt_timeStep = Some 30,
       opt_timestamp = Some 29999, opt_window = Some 1\<rparr>
     = (Inr result, (SHA_1, [97], m) # calls)"
    by blast
  then have "\<exists>result calls. verifyTOTP stub_platform 0 ''843009'' ''ME''
      \<lparr>opt_digits = Some 6, opt_algorithm = Some SHA_1, opt_timeStep = Some 30,
       opt_timestamp = Some 29999, opt_window = Some 1\<rparr>
     = (Inr result, (SHA_1, [97], [255, 255, 255, 255, 255, 255, 255, 255]) # calls)"
    unfolding v by simp
  with hd k h1 h2 h3 h4 e b s show ?thesis by blast
qed

section \<open>Generated secrets\<close>

lemma alphabet_chars: "\<forall>c\<in>set alphabet. in_base32_alphabet c"
  by (simp add: alphabet_def in_base32_alphabet_def)

lemma length_alphabet: "length alphabet = 32"
  by (simp add: alphabet_def)

lemma secret_loop_map:
  assumes "0 \<le> i"
  shows "secret_loop randomValues (int (length randomValues)) i secret =
           secret @ map (\<lambda>j. alphabet ! (unat (randomValues ! j) mod 32)) [nat i..<length randomValues]"
  using assms
proof (induction "nat (int (length randomValues) - i)" arbitrary: i secret)
  case 0
  then have "\<not> i < int (length randomValues)" by simp
  moreover from this have "length randomValues \<le> nat i" by simp
  ultimately show ?case by (subst secret_loop.simps) simp
next
  case (Suc n)
  then have lt: "i < int (length randomValues)"
    and n: "n = nat (int (length randomValues) - (i + 1))" and i: "0 \<le> i + 1" by simp_all
  from lt Suc.prems have r: "nat i < length randomValues" by simp
  have u: "[nat i..<length randomValues] = nat i # [nat (i + 1)..<length randomValues]"
    using r Suc.prems by (simp add: upt_conv_Cons nat_add_distrib)
  from lt Suc.prems show ?case
    by (subst secret_loop.simps) (simp add: Suc.hyps(1) [OF n i] u length_alphabet)
qed

lemma getRandomValues_quota:
  "65536 < int (length buffer) \<Longrightarrow> getRandomValues rng buffer = Inl QuotaExceededError"
  by (simp add: getRandomValues_def)

text \<open>
  Claim C8 (secret generation), as the code has it. For every requested length \<open>n\<close> from 0 to
  65536 and every sequence of bytes supplied by the random source, \<^verbatim>\<open>generateTOTPSecret(n)\<close>
  returns a string of exactly \<open>n\<close> characters, each in the Base32 alphabet \<^verbatim>\<open>A-Z2-7\<close>; the
  character at index \<open>i\<close> is the alphabet entry at the \<open>i\<close>-th random byte modulo 32.
\<close>

theorem secret_generation:
  assumes "0 \<le> n" and "n \<le> 65536"
  shows "\<exists>s. generateTOTPSecret rng (Some n) = Inr s \<and> length s = nat n \<and>
             (\<forall>c\<in>set s. in_base32_alphabet c) \<and>
             (\<forall>i<nat n. s ! i = alphabet ! (unat (rng i) mod 32))"
proof -
  let ?rv = "map rng [0..<nat n]"
  have q: "getRandomValues rng (replicate (nat n) 0) = Inr ?rv"
    using assms by (simp add: getRandomValues_def)
  have l: "int (length ?rv) = n" using assms by simp
  let ?s = "map (\<lambda>j. alphabet ! (unat (?rv ! j) mod 32)) [0..<nat n]"
  have s: "secret_loop ?rv n 0 [] = ?s"
    using secret_loop_map [of 0 ?rv "[]"] unfolding l by simp
  have g: "generateTOTPSecret rng (Some n) = Inr ?s"
    using assms(1) s by (simp add: generateTOTPSecret_def Let_def q)
  have "alphabet ! (k mod 32) \<in> set alphabet" for k
    by (rule nth_mem) (simp add: length_alphabet)
  then have a: "\<forall>c\<in>set ?s. in_base32_alphabet c"
    using alphabet_chars by auto
  have "\<forall>i<nat n. ?s ! i = alphabet ! (unat (rng i) mod 32)"
    by simp
  with g a show ?thesis by (intro exI [of _ ?s]) simp
qed

theorem secret_generation_witness:
  "(0::int) \<le> 10 \<and> (10::int) \<le> 65536 \<and>
   generateTOTPSecret stub_rng (Some 10) = Inr ''27EJOTY5CH'' \<and>
   length ''27EJOTY5CH'' = nat 10 \<and> ''27EJOTY5CH'' ! 0 = alphabet ! (250 mod 32)"
proof -
  have h: "(0::int) \<le> 10" "(10::int) \<le> 65536" by simp_all
  have v: "generateTOTPSecret stub_rng (Some 10) = Inr ''27EJOTY5CH''"
    by code_simp
  have w: "''27EJOTY5CH'' ! 0 = alphabet ! (250 mod 32)" by code_simp
  from secret_generation [OF h, of stub_rng]
  have "length ''27EJOTY5CH'' = nat 10"
    unfolding v by auto
  with h v w show ?thesis by blast
qed

text \<open>
  The claim does not hold for every \<open>n \<ge> 0\<close>: the random source fills at most 65536 bytes in
  one call, the code makes one call for the whole buffer, and a request for 65537 characters
  ends in the \<^verbatim>\<open>QuotaExceededError\<close> of the platform instead of a string.
\<close>

theorem secret_length_quota_counterexample:
  "(0::int) \<le> 65537 \<and>
   generateTOTPSecret stub_rng (Some 65537) = Inl QuotaExceededError \<and>
   \<not> (\<exists>s. generateTOTPSecret stub_rng (Some 65537) = Inr s \<and> length s = nat 65537)"
proof -
  define buffer :: bytes where "buffer = replicate (nat 65537) 0"
  have "int (length buffer) = 65537" by (simp add: buffer_def)
  then have "getRandomValues stub_rng buffer = Inl QuotaExceededError"
    by (intro getRandomValues_quota) simp
  then have "generateTOTPSecret stub_rng (Some 65537) = Inl QuotaExceededError"
    unfolding generateTOTPSecret_def buffer_def by simp
  then show ?thesis by simp
qed

section \<open>Base32 decoding refines the bitstream description\<close>

lemma indexOf_from_absent: "c \<notin> set xs \<Longrightarrow> indexOf_from xs c i = - 1"
  by (induction xs arbitrary: i) auto

lemma indexOf_from_present: "c \<in> set xs \<Longrightarrow> 0 \<le> i \<Longrightarrow> i \<le> indexOf_from xs c i"
proof (induction xs arbitrary: i)
  case Nil
  then show ?case by simp
next
  case (Cons x xs)
  show ?case
  proof (cases "x = c")
    case True
    then show ?thesis by simp
  next
    case False
    with Cons.prems have "c \<in> set xs" "0 \<le> i + 1" by simp_all
    from Cons.IH [OF this] False show ?thesis by simp
  qed
qed

lemma in_alphabet_set: "in_base32_alphabet c \<longleftrightarrow> c \<in> set alphabet"
proof
  assume "c \<in> set alphabet"
  then show "in_base32_alphabet c" using alphabet_chars by blast
next
  assume a: "in_base32_alphabet c"
  define n where "n = (of_char c :: nat)"
  have c: "c = char_of n" by (simp add: n_def)
  from a have "n = 65 \<or> n = 66 \<or> n = 67 \<or> n = 68 \<or> n = 69 \<or> n = 70 \<or> n = 71 \<or> n = 72 \<or> n = 73
      \<or> n = 74 \<or> n = 75 \<or> n = 76 \<or> n = 77 \<or> n = 78 \<or> n = 79 \<or> n = 80 \<or> n = 81 \<or> n = 82
      \<or> n = 83 \<or> n = 84 \<or> n = 85 \<or> n = 86 \<or> n = 87 \<or> n = 88 \<or> n = 89 \<or> n = 90
      \<or> n = 50 \<or> n = 51 \<or> n = 52 \<or> n = 53 \<or> n = 54 \<or> n = 55"
    unfolding in_base32_alphabet_def n_def [symmetric] by arith
  then show "c \<in> set alphabet"
    unfolding c by (elim disjE) (simp_all add: alphabet_def char_of_eq_iff)
qed

lemma alphabet_values:
  "\<forall>c\<in>set alphabet.
     indexOf alphabet c = int (base32_value c) \<and>
     padStart 5 CHR ''0'' (number_toString 2 (indexOf alphabet c))
       = map (\<lambda>b. if b then CHR ''1'' else CHR ''0'') (bits5 (base32_value c))"
  by code_simp

lemma indexOf_alphabet_absent: "\<not> in_base32_alphabet c \<Longrightarrow> indexOf alphabet c = - 1"
  by (simp add: in_alphabet_set indexOf_def indexOf_from_absent)

lemma indexOf_alphabet_present: "in_base32_alphabet c \<Longrightarrow> indexOf alphabet c \<noteq> - 1"
  using indexOf_from_present [of c alphabet 0] by (simp add: in_alphabet_set indexOf_def)

lemma decode_chars_bitstream:
  "decode_chars s bits =
     (if \<forall>c\<in>set s. in_base32_alphabet c
      then Inr (bits @ map (\<lambda>b. if b then CHR ''1'' else CHR ''0'') (concat (map (\<lambda>c. bits5 (base32_value c)) s)))
      else Inl (Error ''Invalid Base32 character in secret''))"
proof (induction s arbitrary: bits)
  case Nil
  show ?case by simp
next
  case (Cons c s)
  show ?case
  proof (cases "in_base32_alphabet c")
    case True
    then have "c \<in> set alphabet" by (simp add: in_alphabet_set)
    with alphabet_values have
      "padStart 5 CHR ''0'' (number_toString 2 (indexOf alphabet c))
         = map (\<lambda>b. if b then CHR ''1'' else CHR ''0'') (bits5 (base32_value c))"
      by blast
    with True indexOf_alphabet_present [OF True] show ?thesis
      by (simp add: Cons.IH Let_def)
  next
    case False
    then show ?thesis by (simp add: indexOf_alphabet_absent)
  qed
qed

lemma parseInt2_bits:
  "parseInt2 (map (\<lambda>b. if b then CHR ''1'' else CHR ''0'') bs) = bits_value bs"
proof -
  have t: "takeWhile (\<lambda>c. c = CHR ''0'' \<or> c = CHR ''1'') (map (\<lambda>b. if b then CHR ''1'' else CHR ''0'') bs)
             = map (\<lambda>b. if b then CHR ''1'' else CHR ''0'') bs"
    by (induction bs) simp_all
  have "foldl (\<lambda>acc c. 2 * acc + (if c = CHR ''1'' then 1 else 0)) a (map (\<lambda>b. if b then CHR ''1'' else CHR ''0'') bs)
          = foldl (\<lambda>acc b. 2 * acc + (if b then 1 else 0)) a bs" for a :: nat
    by (induction bs arbitrary: a) simp_all
  then show ?thesis by (simp add: parseInt2_def bits_value_def t)
qed

lemma emit_bytes_full_bytes:
  assumes "i \<le> length bs"
  shows "map word_of_nat (emit_bytes (map (\<lambda>b. if b then CHR ''1'' else CHR ''0'') bs) i out)
           = map word_of_nat out @ full_bytes (drop i bs)"
  using assms
proof (induction "length bs - i" arbitrary: i out rule: less_induct)
  case less
  let ?bits = "map (\<lambda>b. if b then CHR ''1'' else CHR ''0'') bs"
  show ?case
  proof (cases "i + 8 \<le> length bs")
    case True
    then have sub: "substring ?bits i (i + 8) = map (\<lambda>b. if b then CHR ''1'' else CHR ''0'') (take 8 (drop i bs))"
      by (simp add: substring_def Let_def min_def max_def take_map drop_map)
    from True have d: "length bs - (i + 8) < length bs - i" "i + 8 \<le> length bs" by simp_all
    have f: "full_bytes (drop i bs) = word_of_nat (bits_value (take 8 (drop i bs))) # full_bytes (drop (i + 8) bs)"
      using True by (subst full_bytes.simps) (simp add: add.commute)
    from True show ?thesis
      by (subst emit_bytes.simps) (simp add: less.hyps [OF d] sub parseInt2_bits f)
  next
    case False
    then have "full_bytes (drop i bs) = []"
      by (subst full_bytes.simps) simp
    with False show ?thesis
      by (subst emit_bytes.simps) simp
  qed
qed

lemma upper_symbol:
  "in_base32_alphabet (if 97 \<le> (of_char c :: nat) \<and> (of_char c :: nat) \<le> 122
                       then char_of (of_char c - 32 :: nat) else c) = base32_symbol c"
  by (auto simp add: in_base32_alphabet_def base32_symbol_def)

lemma upper_value:
  assumes "base32_symbol c"
  shows "base32_value (if 97 \<le> (of_char c :: nat) \<and> (of_char c :: nat) \<le> 122
                       then char_of (of_char c - 32 :: nat) else c) = symbol_value c"
  using assms by (auto simp add: base32_value_def base32_symbol_def symbol_value_def)

lemma toUpperCase_alphabet:
  "(\<forall>c\<in>set (toUpperCase s). in_base32_alphabet c) = (\<forall>c\<in>set s. base32_symbol c)"
  by (induction s) (simp_all add: toUpperCase_def upper_symbol)

lemma toUpperCase_bits:
  "\<forall>c\<in>set s. base32_symbol c \<Longrightarrow>
     concat (map (\<lambda>c. bits5 (base32_value c)) (toUpperCase s)) = bitstream s"
  by (induction s) (simp_all add: toUpperCase_def bitstream_def upper_value)

lemma strip_padding_body:
  assumes "body = [] \<or> last body \<noteq> CHR ''=''"
  shows "strip_padding (body @ replicate k CHR ''='') = body"
proof -
  have "dropWhile (\<lambda>c. c = CHR ''='') (replicate k CHR ''='' @ rev body)
          = dropWhile (\<lambda>c. c = CHR ''='') (rev body)"
    by (rule dropWhile_append2) simp
  also have "dropWhile (\<lambda>c. c = CHR ''='') (rev body) = rev body"
  proof (cases "rev body")
    case Nil
    then show ?thesis by simp
  next
    case (Cons x xs)
    then have "body \<noteq> []" "last body = x" by (auto simp add: last_rev [symmetric])
    with assms Cons show ?thesis by simp
  qed
  finally show ?thesis by (simp add: strip_padding_def)
qed

text \<open>Every input is a body that does not end in \<^verbatim>\<open>=\<close>, followed by a run of \<^verbatim>\<open>=\<close>.\<close>

lemma strip_padding_shape:
  "(\<exists>k. input = strip_padding input @ replicate k CHR ''='') \<and>
   (strip_padding input = [] \<or> last (strip_padding input) \<noteq> CHR ''='')"
proof -
  let ?r = "rev input"
  have "?r = takeWhile (\<lambda>c. c = CHR ''='') ?r @ dropWhile (\<lambda>c. c = CHR ''='') ?r" by simp
  moreover have "takeWhile (\<lambda>c. c = CHR ''='') ?r = replicate (length (takeWhile (\<lambda>c. c = CHR ''='') ?r)) CHR ''=''"
    by (rule replicate_length_same [symmetric]) (auto dest: set_takeWhileD)
  ultimately have "?r = replicate (length (takeWhile (\<lambda>c. c = CHR ''='') ?r)) CHR ''='' @ dropWhile (\<lambda>c. c = CHR ''='') ?r"
    by simp
  then have "rev ?r = strip_padding input @ replicate (length (takeWhile (\<lambda>c. c = CHR ''='') ?r)) CHR ''=''"
    unfolding strip_padding_def by (metis rev_append rev_replicate)
  then have 1: "\<exists>k. input = strip_padding input @ replicate k CHR ''=''" by auto
  have 2: "strip_padding input = [] \<or> last (strip_padding input) \<noteq> CHR ''=''"
  proof (cases "dropWhile (\<lambda>c. c = CHR ''='') ?r")
    case Nil
    then show ?thesis by (simp add: strip_padding_def)
  next
    case (Cons x xs)
    then have "x \<noteq> CHR ''=''" using hd_dropWhile [of "\<lambda>c. c = CHR ''=''" ?r] by auto
    with Cons show ?thesis by (simp add: strip_padding_def)
  qed
  from 1 2 show ?thesis by blast
qed

text \<open>
  Claim C4 (Base32 decode). Let an ASCII input be a body that does not end in \<^verbatim>\<open>=\<close>, followed
  by any number of \<^verbatim>\<open>=\<close>. \<^verbatim>\<open>base32Decode\<close> drops the run of \<^verbatim>\<open>=\<close> and reads the body without
  regard to case. It raises its error if and only if some character of the body is not a
  letter \<^verbatim>\<open>A\<close> to \<^verbatim>\<open>Z\<close> or \<^verbatim>\<open>a\<close> to \<^verbatim>\<open>z\<close> or a digit \<^verbatim>\<open>2\<close> to \<^verbatim>\<open>7\<close>, that is, not in the
  alphabet \<^verbatim>\<open>A-Z2-7\<close> once upper-cased. Otherwise it returns the bytes obtained by
  concatenating the 5-bit values of the characters (a letter counts from 0 in either case,
  \<^verbatim>\<open>2\<close> is 26) into a bitstream and cutting whole bytes from the front, the bits left over
  being dropped.
\<close>

theorem base32_decode:
  assumes "ascii input"
    and "input = body @ replicate k CHR ''=''"
    and "body = [] \<or> last body \<noteq> CHR ''=''"
  shows "base32Decode input =
     (if \<forall>c\<in>set body. base32_symbol c
      then Inr (full_bytes (bitstream body))
      else Inl (Error ''Invalid Base32 character in secret''))"
proof -
  have s: "strip_padding input = body"
    unfolding assms(2) using assms(3) by (rule strip_padding_body)
  show ?thesis
  proof (cases "\<forall>c\<in>set body. base32_symbol c")
    case True
    then show ?thesis
      using emit_bytes_full_bytes [of 0 "bitstream body" "[]"]
      by (simp add: base32Decode_def s decode_chars_bitstream toUpperCase_alphabet toUpperCase_bits)
  next
    case False
    then have "\<not> (\<forall>c\<in>set (toUpperCase body). in_base32_alphabet c)"
      by (simp add: toUpperCase_alphabet)
    then have "decode_chars (toUpperCase body) [] = Inl (Error ''Invalid Base32 character in secret'')"
      unfolding decode_chars_bitstream by (rule if_not_P)
    with False show ?thesis
      by (simp add: base32Decode_def s)
  qed
qed

text \<open>
  \<^verbatim>\<open>mfrgg===\<close> is the padded, lower-case Base32 form of \<^verbatim>\<open>abc\<close>; \<^verbatim>\<open>12345\<close> is rejected
  because \<^verbatim>\<open>1\<close> is not in the alphabet.
\<close>

theorem base32_decode_witness:
  "ascii ''mfrgg==='' \<and> ''mfrgg==='' = ''mfrgg'' @ replicate 3 CHR ''='' \<and>
   last ''mfrgg'' \<noteq> CHR ''='' \<and>
   base32Decode ''mfrgg==='' = Inr [97, 98, 99] \<and>
   full_bytes (bitstream ''mfrgg'') = [97, 98, 99] \<and>
   full_bytes (bitstream ''MFRGG'') = [97, 98, 99] \<and>
   ascii ''12345'' \<and> \<not> base32_symbol CHR ''1'' \<and>
   base32Decode ''12345'' = Inl (Error ''Invalid Base32 character in secret'')"
proof -
  have a: "ascii ''mfrgg===''" by (simp add: ascii_def)
  have d: "''mfrgg==='' = ''mfrgg'' @ replicate 3 CHR ''=''" by (simp add: numeral_3_eq_3)
  have l: "''mfrgg'' = [] \<or> last ''mfrgg'' \<noteq> CHR ''=''" by simp
  have f: "full_bytes (bitstream ''mfrgg'') = [97, 98, 99]" by code_simp
  have f': "full_bytes (bitstream ''MFRGG'') = [97, 98, 99]" by code_simp
  have y: "\<forall>c\<in>set ''mfrgg''. base32_symbol c" by (simp add: base32_symbol_def)
  have a2: "ascii ''12345''" by (simp add: ascii_def)
  have d2: "''12345'' = ''12345'' @ replicate 0 CHR ''=''" by simp
  have l2: "''12345'' = [] \<or> last ''12345'' \<noteq> CHR ''=''" by simp
  have n: "\<not> base32_symbol CHR ''1''" by (simp add: base32_symbol_def)
  then have n2: "\<not> (\<forall>c\<in>set ''12345''. base32_symbol c)" by simp
  from base32_decode [OF a d l] have 1: "base32Decode ''mfrgg==='' = Inr [97, 98, 99]"
    unfolding f using y by simp
  from base32_decode [OF a2 d2 l2] have 2: "base32Decode ''12345'' = Inl (Error ''Invalid Base32 character in secret'')"
    using n2 by simp
  from a d 1 f f' a2 n 2 show ?thesis by simp
qed


section \<open>The provisioning URI\<close>

lemma form_urlencode_kept:
  "\<forall>c\<in>set s. c \<in> set (alphanumeric @ ''*-._'') \<Longrightarrow> form_urlencode s = s"
  by (induction s) (simp_all add: form_urlencode_def)

lemma length_form_urlencode: "length s \<le> length (form_urlencode s)"
  by (induction s) (simp_all add: form_urlencode_def percent_byte_def)

lemma form_urlencode_Cons: "form_urlencode (c # s) = form_urlencode [c] @ form_urlencode s"
  by (simp add: form_urlencode_def)

lemma form_urlencode_changed:
  "form_urlencode s = s \<Longrightarrow> \<forall>c\<in>set s. c \<in> set (alphanumeric @ ''*-._'')"
proof (induction s)
  case Nil
  show ?case by simp
next
  case (Cons c s)
  note e = Cons.prems [unfolded form_urlencode_Cons [of c s]]
  show ?case
  proof (cases "c \<in> set (alphanumeric @ ''*-._'')")
    case True
    then have "form_urlencode [c] = [c]" by (simp add: form_urlencode_def)
    with e have "form_urlencode s = s" by simp
    with Cons.IH True show ?thesis by simp
  next
    case False
    show ?thesis
    proof (cases "c = CHR '' ''")
      case True
      with False have "form_urlencode [c] = ''+''" by (simp add: form_urlencode_def)
      with e True show ?thesis by simp
    next
      case sp: False
      with False have "form_urlencode [c] = percent_byte c" by (simp add: form_urlencode_def)
      with e have "length (percent_byte c @ form_urlencode s) = length (c # s)" by simp
      then have "length (form_urlencode s) + 2 = length s" by (simp add: percent_byte_def)
      with length_form_urlencode [of s] show ?thesis by simp
    qed
  qed
qed

lemma decimal_digit_kept: "decimal_digit c \<Longrightarrow> c \<in> set (alphanumeric @ ''*-._'')"
proof -
  assume a: "decimal_digit c"
  define n where "n = (of_char c :: nat)"
  have c: "c = char_of n" by (simp add: n_def)
  from a have "n = 48 \<or> n = 49 \<or> n = 50 \<or> n = 51 \<or> n = 52 \<or> n = 53 \<or> n = 54 \<or> n = 55 \<or> n = 56 \<or> n = 57"
    unfolding decimal_digit_def n_def [symmetric] by arith
  then show ?thesis
    unfolding c by (elim disjE) (simp_all add: alphanumeric_def char_of_eq_iff)
qed

lemma number_toString_kept: "form_urlencode (number_toString 10 n) = number_toString 10 n"
proof (rule form_urlencode_kept, rule ballI)
  fix c assume c: "c \<in> set (number_toString 10 n)"
  show "c \<in> set (alphanumeric @ ''*-._'')"
  proof (cases "n < 0")
    case True
    then have "0 \<le> - n" by simp
    from radix_digits_10 [OF this] c True have "c = CHR ''-'' \<or> decimal_digit c"
      by (auto simp add: number_toString_def)
    then show ?thesis using decimal_digit_kept by auto
  next
    case False
    then have "0 \<le> n" by simp
    from radix_digits_10 [OF this] c False have "decimal_digit c"
      by (auto simp add: number_toString_def)
    then show ?thesis by (rule decimal_digit_kept)
  qed
qed

lemma param_names:
  "form_urlencode ''secret'' = ''secret''" "form_urlencode ''issuer'' = ''issuer''"
  "form_urlencode ''algorithm'' = ''algorithm''" "form_urlencode ''digits'' = ''digits''"
  "form_urlencode ''period'' = ''period''"
  "form_urlencode ''SHA1'' = ''SHA1''" "form_urlencode ''SHA256'' = ''SHA256''"
  "form_urlencode ''SHA512'' = ''SHA512''"
  by (simp_all add: form_urlencode_def alphanumeric_def)

text \<open>
  Claim C6 (provisioning URI format), as the code has it. For every ASCII account name,
  issuer and secret, every algorithm, and \<open>digits\<close> and \<open>period\<close> that are safe integers
  (magnitude below \<open>2^53\<close>, which the language prints as decimal numerals), \<^verbatim>\<open>generateTOTPURI\<close>
  returns \<^verbatim>\<open>otpauth://totp/\<close>, then the label \<open>issuer:accountName\<close> encoded by
  \<^verbatim>\<open>encodeURIComponent\<close>, then \<^verbatim>\<open>?\<close> and the parameters \<^verbatim>\<open>secret\<close>, \<^verbatim>\<open>issuer\<close>,
  \<^verbatim>\<open>algorithm\<close> (\<^verbatim>\<open>SHA1\<close>, \<^verbatim>\<open>SHA256\<close> or \<^verbatim>\<open>SHA512\<close>), \<^verbatim>\<open>digits\<close> and \<^verbatim>\<open>period\<close> in
  that order. The secret is not validated, and it is form-encoded like the issuer,
  not copied: it appears unchanged if and only if all its characters are letters,
  digits or \<^verbatim>\<open>* - . _\<close> (as in every unpadded Base32 secret). Non-negative digits
  and period appear as their decimal numerals.
\<close>

theorem provisioning_uri:
  assumes strings: "ascii accountName" "ascii issuer" "ascii secret"
    and numbers: "\<bar>digits\<bar> < 2 ^ 53" "\<bar>period\<bar> < 2 ^ 53"
  shows "generateTOTPURI \<lparr>uri_accountName = accountName, uri_issuer = issuer, uri_secret = secret,
                     uri_digits = Some digits, uri_period = Some period, uri_algorithm = Some alg\<rparr>
     = ''otpauth://totp/'' @ encodeURIComponent (issuer @ '':'' @ accountName)
       @ ''?secret='' @ form_urlencode secret
       @ ''&issuer='' @ form_urlencode issuer
       @ ''&algorithm='' @ (case alg of SHA_1 \<Rightarrow> ''SHA1'' | SHA_256 \<Rightarrow> ''SHA256'' | SHA_512 \<Rightarrow> ''SHA512'')
       @ ''&digits='' @ number_toString 10 digits
       @ ''&period='' @ number_toString 10 period \<and>
   (form_urlencode secret = secret) = (\<forall>c\<in>set secret. c \<in> set (alphanumeric @ ''*-._'')) \<and>
   (0 \<le> digits \<longrightarrow> (\<forall>c\<in>set (number_toString 10 digits). decimal_digit c) \<and>
                     decimal_value (number_toString 10 digits) = digits) \<and>
   (0 \<le> period \<longrightarrow> (\<forall>c\<in>set (number_toString 10 period). decimal_digit c) \<and>
                     decimal_value (number_toString 10 period) = period)"
proof -
  have u: "generateTOTPURI \<lparr>uri_accountName = accountName, uri_issuer = issuer, uri_secret = secret,
                     uri_digits = Some digits, uri_period = Some period, uri_algorithm = Some alg\<rparr>
     = ''otpauth://totp/'' @ encodeURIComponent (issuer @ '':'' @ accountName)
       @ ''?secret='' @ form_urlencode secret
       @ ''&issuer='' @ form_urlencode issuer
       @ ''&algorithm='' @ (case alg of SHA_1 \<Rightarrow> ''SHA1'' | SHA_256 \<Rightarrow> ''SHA256'' | SHA_512 \<Rightarrow> ''SHA512'')
       @ ''&digits='' @ number_toString 10 digits
       @ ''&period='' @ number_toString 10 period"
    by (cases alg)
      (simp_all add: generateTOTPURI_def Let_def param_names number_toString_kept remove_hyphens_def)
  have d: "0 \<le> n \<longrightarrow> (\<forall>c\<in>set (number_toString 10 n). decimal_digit c) \<and>
                     decimal_value (number_toString 10 n) = n" for n
    using radix_digits_10 [of n] by (simp add: number_toString_def)
  have k: "(form_urlencode secret = secret) = (\<forall>c\<in>set secret. c \<in> set (alphanumeric @ ''*-._''))"
    using form_urlencode_kept [of secret] form_urlencode_changed [of secret] by blast
  from u d [of digits] d [of period] k show ?thesis by blast
qed

text \<open>The account and issuer of the specification's example, with an unpadded secret.\<close>

theorem provisioning_uri_witness:
  "ascii ''info@rabbit-company.com'' \<and> ascii ''Rabbit Company'' \<and> ascii ''JBSWY3DPEHPK3PXP'' \<and>
   \<bar>6::int\<bar> < 2 ^ 53 \<and> \<bar>30::int\<bar> < 2 ^ 53 \<and>
   set ''JBSWY3DPEHPK3PXP'' \<subseteq> set (alphanumeric @ ''*-._'') \<and>
   (0::int) \<le> 6 \<and> (0::int) \<le> 30 \<and>
   generateTOTPURI \<lparr>uri_accountName = ''info@rabbit-company.com'', uri_issuer = ''Rabbit Company'',
                     uri_secret = ''JBSWY3DPEHPK3PXP'', uri_digits = Some 6, uri_period = Some 30,
                     uri_algorithm = Some SHA_1\<rparr>
     = ''otpauth://totp/Rabbit%20Company%3Ainfo%40rabbit-company.com?secret=JBSWY3DPEHPK3PXP&issuer=Rabbit+Company&algorithm=SHA1&digits=6&period=30'' \<and>
   form_urlencode ''JBSWY3DPEHPK3PXP'' = ''JBSWY3DPEHPK3PXP'' \<and>
   decimal_value (number_toString 10 6) = 6 \<and> decimal_value (number_toString 10 30) = 30"
proof -
  have a: "ascii ''info@rabbit-company.com''" "ascii ''Rabbit Company''" "ascii ''JBSWY3DPEHPK3PXP''"
    by (simp_all add: ascii_def)
  have b: "\<bar>6::int\<bar> < 2 ^ 53" "\<bar>30::int\<bar> < 2 ^ 53" by simp_all
  have h1: "\<forall>c\<in>set ''JBSWY3DPEHPK3PXP''. c \<in> set (alphanumeric @ ''*-._'')" by code_simp
  have h2: "(0::int) \<le> 6" by simp
  have h3: "(0::int) \<le> 30" by simp
  have e1: "encodeURIComponent (''Rabbit Company'' @ '':'' @ ''info@rabbit-company.com'')
              = ''Rabbit%20Company%3Ainfo%40rabbit-company.com''" by code_simp
  have e2: "form_urlencode ''Rabbit Company'' = ''Rabbit+Company''" by code_simp
  have e3: "number_toString 10 6 = ''6''" by code_simp
  have e4: "number_toString 10 30 = ''30''" by code_simp
  note t = provisioning_uri [OF a b, where alg = SHA_1]
  from t h1 have s: "form_urlencode ''JBSWY3DPEHPK3PXP'' = ''JBSWY3DPEHPK3PXP''" by blast
  from t h2 have d: "decimal_value (number_toString 10 6) = 6" by blast
  from t h3 have p: "decimal_value (number_toString 10 30) = 30" by blast
  from t have "generateTOTPURI \<lparr>uri_accountName = ''info@rabbit-company.com'', uri_issuer = ''Rabbit Company'',
                     uri_secret = ''JBSWY3DPEHPK3PXP'', uri_digits = Some 6, uri_period = Some 30,
                     uri_algorithm = Some SHA_1\<rparr>
     = ''otpauth://totp/Rabbit%20Company%3Ainfo%40rabbit-company.com?secret=JBSWY3DPEHPK3PXP&issuer=Rabbit+Company&algorithm=SHA1&digits=6&period=30''"
    unfolding e1 e2 s e3 e4 by simp
  moreover from h1 have "set ''JBSWY3DPEHPK3PXP'' \<subseteq> set (alphanumeric @ ''*-._'')" by blast
  ultimately show ?thesis using a b h2 h3 s d p by blast
qed

text \<open>
  A padded Base32 secret is a valid secret, and its padding is percent-encoded in the
  URI; the URI is not the one with the secret copied as it is.
\<close>

theorem secret_not_as_is_counterexample:
  "generateTOTPURI \<lparr>uri_accountName = ''info@rabbit-company.com'', uri_issuer = ''Rabbit Company'',
                     uri_secret = ''ME======'', uri_digits = Some 6, uri_period = Some 30,
                     uri_algorithm = Some SHA_1\<rparr>
     = ''otpauth://totp/Rabbit%20Company%3Ainfo%40rabbit-company.com?secret=ME%3D%3D%3D%3D%3D%3D&issuer=Rabbit+Company&algorithm=SHA1&digits=6&period=30'' \<and>
   generateTOTPURI \<lparr>uri_accountName = ''info@rabbit-company.com'', uri_issuer = ''Rabbit Company'',
                     uri_secret = ''ME======'', uri_digits = Some 6, uri_period = Some 30,
                     uri_algorithm = Some SHA_1\<rparr>
     \<noteq> ''otpauth://totp/Rabbit%20Company%3Ainfo%40rabbit-company.com?secret='' @ ''ME======''
         @ ''&issuer=Rabbit+Company&algorithm=SHA1&digits=6&period=30'' \<and>
   base32Decode ''ME======'' = Inr [97]"
  by code_simp

section \<open>Parameters are not validated\<close>
















end
